theory Spec2Isabelle
  imports Complex_Main
begin

section \<open>The real-time connection registry (websocket/socketManager.js)\<close>

text \<open>
  A shallow embedding of the class \<open>SocketManager\<close>. The three indexes of the class are
  JavaScript \<open>Map\<close>s, modelled as partial functions; the \<open>Set\<close>s stored in them are modelled
  as lists in insertion order, which is the order \<open>forEach\<close> visits them in. A connection
  handle (the transport's socket object, used as a key by identity) is a natural number.

  The transport (package \<open>ws\<close>) is not part of the repository. What the class reads and
  calls on a socket is kept in a per-socket record: \<open>readyState\<close>, the \<open>isAlive\<close> flag the
  class stores on the object, and \<open>sendRaises\<close>, which says whether a call of the socket's
  \<open>send\<close> raises an exception. Every write the class makes to a socket is recorded in a log
  (\<open>sent\<close>, \<open>pings\<close>, \<open>terminated\<close>). Clock readings (\<open>new Date()\<close>) and generated identifiers
  are inputs of the operations.
\<close>

subsection \<open>Data\<close>

type_synonym ws = nat
type_synonym room = string
type_synonym uid = nat
type_synonym pid = nat
type_synonym time = nat
type_synonym payload = string

datatype ready_state = CONNECTING | OPEN | CLOSING | CLOSED

text \<open>
  A JavaScript number: a finite number, \<open>Infinity\<close>, \<open>-Infinity\<close> or \<open>NaN\<close>. The finite
  numbers are the IEEE binary64 numbers, taken here as the reals they denote (zero has
  no sign). The prices passed to the registry are finite numbers.
\<close>

datatype jsnum = Num real | Infinity | NegInfinity | NaN

record socket =
  readyState :: ready_state
  isAlive :: bool
  sendRaises :: bool

text \<open>
  The outbound envelopes; the last argument of each is the timestamp. An envelope is sent
  as it is: \<open>JSON.stringify\<close> is taken to succeed and to keep the fields apart (it
  writes a discount that is not finite as \<open>null\<close>).
\<close>

datatype message =
    WELCOME string time
  | ROOM_JOINED room nat time
  | ROOM_LEFT room time
  | USER_JOINED "uid option" nat time
  | USER_LEFT "uid option" nat time
  | PRODUCT_TRACKED pid time
  | PRODUCT_UNTRACKED pid time
  | PRODUCT_UPDATE pid payload time
  | STOCK_UPDATE pid int int time
  | PRICE_UPDATE pid real real jsnum time
  | NEW_PRODUCT payload time
  | USER_ACTIVITY "uid option" payload time
  | NOTIFICATION payload string time
  | ANALYTICS_UPDATE payload time
  | USER_TYPING "uid option" time
  | PONG time

text \<open>
  An inbound frame after \<open>JSON.parse\<close> and the \<open>switch\<close> on \<open>data.type\<close>: one constructor
  per case, \<open>F_UNKNOWN\<close> for the default case, \<open>F_NULL\<close> for the frame \<open>null\<close> (it parses,
  and the read of \<open>data.type\<close> raises) and \<open>F_MALFORMED\<close> for a frame on which \<open>JSON.parse\<close>
  raises. Room names are strings and product identifiers are numbers, as in the wire
  schema.
\<close>

datatype frame =
    F_JOIN_ROOM room
  | F_LEAVE_ROOM room
  | F_TRACK_PRODUCT pid
  | F_UNTRACK_PRODUCT pid
  | F_USER_TYPING room
  | F_HEARTBEAT
  | F_UNKNOWN string
  | F_NULL
  | F_MALFORMED

datatype log_entry = LogInfo | LogWarn | LogError

text \<open>
  \<open>clientInfo\<close>: the record stored per connection. The source's field \<open>id\<close> is \<open>clientId\<close>
  here and its field \<open>rooms\<close> is \<open>clientRooms\<close> (the registry has a field \<open>rooms\<close> too).
\<close>

record clientInfo =
  clientId :: string
  userId :: "uid option"
  connectedAt :: time
  lastActivity :: time
  clientRooms :: "room list"
  trackedProducts :: "pid list"

record state =
  clients :: "ws \<rightharpoonup> clientInfo"
  rooms :: "room \<rightharpoonup> ws list"
  userSockets :: "uid \<rightharpoonup> ws list"
  wssClients :: "ws list"
  socks :: "ws \<Rightarrow> socket"
  sent :: "(ws \<times> message) list"
  pings :: "ws list"
  terminated :: "ws list"
  logged :: "log_entry list"

text \<open>
  A call either returns or raises; in both cases the mutations made so far stay, so the
  state is part of both results.
\<close>

datatype outcome = Returned | Threw

type_synonym result = "outcome \<times> state"

definition andThen :: "result \<Rightarrow> (state \<Rightarrow> result) \<Rightarrow> result" where
  "andThen r f = (case r of (Returned, s) \<Rightarrow> f s | (Threw, s) \<Rightarrow> (Threw, s))"

text \<open>\<open>try { ... } catch (error) { logger.error(...) }\<close>\<close>

definition tryCatch :: "result \<Rightarrow> result" where
  "tryCatch r =
     (case r of (Returned, s) \<Rightarrow> (Returned, s)
      | (Threw, s) \<Rightarrow> (Returned, s\<lparr>logged := logged s @ [LogError]\<rparr>))"

text \<open>
  \<open>Set.prototype.add\<close> and \<open>delete\<close> on an insertion-ordered set, and \<open>forEach\<close> over a
  set: the callback runs on the elements in order and an exception leaves the loop. No
  callback in the class changes the set it is iterated over.
\<close>

definition set_add :: "'a \<Rightarrow> 'a list \<Rightarrow> 'a list" where
  "set_add x xs = (if x \<in> set xs then xs else xs @ [x])"

definition set_delete :: "'a \<Rightarrow> 'a list \<Rightarrow> 'a list" where
  "set_delete x xs = removeAll x xs"

fun forEach :: "'a list \<Rightarrow> (state \<Rightarrow> 'a \<Rightarrow> result) \<Rightarrow> state \<Rightarrow> result" where
  "forEach [] f st = (Returned, st)"
| "forEach (x # xs) f st =
     (case f st x of (Returned, st') \<Rightarrow> forEach xs f st' | (Threw, st') \<Rightarrow> (Threw, st'))"

text \<open>JavaScript truthiness of a user identifier: \<open>undefined\<close> and \<open>0\<close> are falsy.\<close>

definition truthy :: "uid option \<Rightarrow> bool" where
  "truthy u = (case u of None \<Rightarrow> False | Some n \<Rightarrow> n \<noteq> 0)"

subsection \<open>The send primitives\<close>

text \<open>\<open>client.send(str)\<close>: the transport's own method, which may raise.\<close>

definition ws_send :: "state \<Rightarrow> ws \<Rightarrow> message \<Rightarrow> result" where
  "ws_send st c m =
     (if sendRaises (socks st c) then (Threw, st)
      else (Returned, st\<lparr>sent := sent st @ [(c, m)]\<rparr>))"

definition sendToClient :: "state \<Rightarrow> ws \<Rightarrow> message \<Rightarrow> result" where
  "sendToClient st c m =
     (if readyState (socks st c) = OPEN then ws_send st c m else (Returned, st))"

text \<open>\<open>broadcast(message, filter = null)\<close>: over \<open>this.wss.clients\<close>.\<close>

definition broadcast :: "state \<Rightarrow> message \<Rightarrow> (state \<Rightarrow> ws \<Rightarrow> bool) option \<Rightarrow> result" where
  "broadcast st m flt =
     forEach (wssClients st)
       (\<lambda>s client.
          if readyState (socks s client) = OPEN
          then (if (case flt of None \<Rightarrow> True | Some f \<Rightarrow> f s client)
                then ws_send s client m else (Returned, s))
          else (Returned, s))
       st"

text \<open>\<open>broadcastToRoom(roomName, message, excludeWs = null)\<close>\<close>

definition broadcastToRoom :: "state \<Rightarrow> room \<Rightarrow> message \<Rightarrow> ws option \<Rightarrow> result" where
  "broadcastToRoom st roomName m excludeWs =
     (case rooms st roomName of
        None \<Rightarrow> (Returned, st)
      | Some members \<Rightarrow>
          forEach members
            (\<lambda>s client.
               if readyState (socks s client) = OPEN \<and> Some client \<noteq> excludeWs
               then ws_send s client m else (Returned, s))
            st)"

text \<open>\<open>sendNotification(userId, notification)\<close>; \<open>nid\<close> is the generated identifier.\<close>

definition sendNotification :: "state \<Rightarrow> uid \<Rightarrow> payload \<Rightarrow> string \<Rightarrow> time \<Rightarrow> result" where
  "sendNotification st u notification nid now =
     (case userSockets st u of
        None \<Rightarrow> (Returned, st)
      | Some conns \<Rightarrow>
          forEach conns (\<lambda>s c. sendToClient s c (NOTIFICATION notification nid now)) st)"

subsection \<open>Connection acceptance\<close>

text \<open>
  The transport adds a new socket to \<open>wss.clients\<close> in the open state before it emits
  \<open>connection\<close>; the flag \<open>isAlive\<close> does not exist on the object yet (it is falsy).
\<close>

definition wssAccept :: "state \<Rightarrow> ws \<Rightarrow> state" where
  "wssAccept st c =
     st\<lparr>wssClients := set_add c (wssClients st),
        socks := (socks st)(c := \<lparr>readyState = OPEN, isAlive = False,
                                   sendRaises = sendRaises (socks st c)\<rparr>)\<rparr>"

text \<open>
  The \<open>connection\<close> listener: \<open>u\<close> is \<open>req.user?.userId\<close>, \<open>cid\<close> the generated client
  identifier. The listeners it registers on the socket are the operations below.
\<close>

definition onConnection :: "state \<Rightarrow> ws \<Rightarrow> uid option \<Rightarrow> string \<Rightarrow> time \<Rightarrow> result" where
  "onConnection st c u cid now =
     (let info = \<lparr>clientId = cid, userId = u, connectedAt = now, lastActivity = now,
                   clientRooms = [], trackedProducts = []\<rparr>;
          st1 = st\<lparr>logged := logged st @ [LogInfo], clients := (clients st)(c \<mapsto> info)\<rparr>;
          st2 = (if truthy u
                 then (case u of
                         None \<Rightarrow> st1
                       | Some n \<Rightarrow>
                           st1\<lparr>userSockets := (userSockets st1)
                             (n \<mapsto> set_add c
                                (case userSockets st1 n of None \<Rightarrow> [] | Some s \<Rightarrow> s))\<rparr>)
                 else st1)
      in andThen (sendToClient st2 c (WELCOME cid now))
           (\<lambda>s. (Returned, s\<lparr>socks := (socks s)(c := (socks s c)\<lparr>isAlive := True\<rparr>)\<rparr>)))"

subsection \<open>Rooms and product tracking\<close>

definition joinRoom :: "state \<Rightarrow> ws \<Rightarrow> room \<Rightarrow> time \<Rightarrow> result" where
  "joinRoom st c roomName now =
     (case clients st c of
        None \<Rightarrow> (Returned, st)
      | Some info \<Rightarrow>
          (let members = set_add c (case rooms st roomName of None \<Rightarrow> [] | Some ms \<Rightarrow> ms);
               st1 = st\<lparr>rooms := (rooms st)(roomName \<mapsto> members),
                        clients := (clients st)
                          (c \<mapsto> info\<lparr>clientRooms := set_add roomName (clientRooms info)\<rparr>)\<rparr>
           in andThen (sendToClient st1 c (ROOM_JOINED roomName (length members) now))
                (\<lambda>s. broadcastToRoom s roomName
                        (USER_JOINED (userId info) (length members) now) (Some c))))"

definition leaveRoom :: "state \<Rightarrow> ws \<Rightarrow> room \<Rightarrow> time \<Rightarrow> result" where
  "leaveRoom st c roomName now =
     (case clients st c of
        None \<Rightarrow> (Returned, st)
      | Some info \<Rightarrow>
          (case rooms st roomName of
             None \<Rightarrow> (Returned, st)
           | Some ms \<Rightarrow>
               (let members = set_delete c ms;
                    st1 = st\<lparr>rooms := (if length members = 0 then (rooms st)(roomName := None)
                                       else (rooms st)(roomName \<mapsto> members)),
                             clients := (clients st)
                               (c \<mapsto> info\<lparr>clientRooms := set_delete roomName (clientRooms info)\<rparr>)\<rparr>
                in sendToClient st1 c (ROOM_LEFT roomName now))))"

definition trackProduct :: "state \<Rightarrow> ws \<Rightarrow> pid \<Rightarrow> time \<Rightarrow> result" where
  "trackProduct st c productId now =
     (case clients st c of
        None \<Rightarrow> (Returned, st)
      | Some info \<Rightarrow>
          sendToClient
            (st\<lparr>clients := (clients st)
                 (c \<mapsto> info\<lparr>trackedProducts := set_add productId (trackedProducts info)\<rparr>)\<rparr>)
            c (PRODUCT_TRACKED productId now))"

definition untrackProduct :: "state \<Rightarrow> ws \<Rightarrow> pid \<Rightarrow> time \<Rightarrow> result" where
  "untrackProduct st c productId now =
     (case clients st c of
        None \<Rightarrow> (Returned, st)
      | Some info \<Rightarrow>
          sendToClient
            (st\<lparr>clients := (clients st)
                 (c \<mapsto> info\<lparr>trackedProducts := set_delete productId (trackedProducts info)\<rparr>)\<rparr>)
            c (PRODUCT_UNTRACKED productId now))"

subsection \<open>Inbound frames\<close>

text \<open>
  The body of the \<open>switch\<close>, after \<open>clientInfo.lastActivity\<close> has been refreshed; \<open>info\<close> is
  the record read before the dispatch.
\<close>

fun dispatch :: "state \<Rightarrow> ws \<Rightarrow> clientInfo \<Rightarrow> time \<Rightarrow> frame \<Rightarrow> result" where
  "dispatch st c info now (F_JOIN_ROOM r) = joinRoom st c r now"
| "dispatch st c info now (F_LEAVE_ROOM r) = leaveRoom st c r now"
| "dispatch st c info now (F_TRACK_PRODUCT p) = trackProduct st c p now"
| "dispatch st c info now (F_UNTRACK_PRODUCT p) = untrackProduct st c p now"
| "dispatch st c info now (F_USER_TYPING r) =
     broadcastToRoom st r (USER_TYPING (userId info) now) (Some c)"
| "dispatch st c info now F_HEARTBEAT = sendToClient st c (PONG now)"
| "dispatch st c info now (F_UNKNOWN t) = (Returned, st\<lparr>logged := logged st @ [LogWarn]\<rparr>)"
| "dispatch st c info now F_NULL = (Threw, st)"
| "dispatch st c info now F_MALFORMED = (Threw, st)"

definition handleMessage :: "state \<Rightarrow> ws \<Rightarrow> frame \<Rightarrow> time \<Rightarrow> result" where
  "handleMessage st c data now =
     tryCatch
       (if data = F_MALFORMED then (Threw, st)
        else (case clients st c of
                None \<Rightarrow> (Returned, st)
              | Some info \<Rightarrow>
                  dispatch (st\<lparr>clients := (clients st)(c \<mapsto> info\<lparr>lastActivity := now\<rparr>)\<rparr>)
                    c info now data))"

subsection \<open>Cleanup on close and error\<close>

text \<open>The callback of \<open>clientInfo.rooms.forEach\<close> in \<open>removeClient\<close>.\<close>

definition removeFromRoom :: "ws \<Rightarrow> clientInfo \<Rightarrow> time \<Rightarrow> state \<Rightarrow> room \<Rightarrow> result" where
  "removeFromRoom c info now s roomName =
     (case rooms s roomName of
        None \<Rightarrow> (Returned, s)
      | Some ms \<Rightarrow>
          (let members = set_delete c ms
           in if length members = 0
              then (Returned, s\<lparr>rooms := (rooms s)(roomName := None)\<rparr>)
              else broadcastToRoom (s\<lparr>rooms := (rooms s)(roomName \<mapsto> members)\<rparr>) roomName
                     (USER_LEFT (userId info) (length members) now) None))"

definition removeClient :: "state \<Rightarrow> ws \<Rightarrow> time \<Rightarrow> result" where
  "removeClient st c now =
     (case clients st c of
        None \<Rightarrow> (Returned, st)
      | Some info \<Rightarrow>
          andThen (forEach (clientRooms info) (removeFromRoom c info now) st)
            (\<lambda>s. let s1 = (case userId info of
                              None \<Rightarrow> s
                            | Some u \<Rightarrow>
                                if truthy (userId info) \<and> userSockets s u \<noteq> None
                                then (let conns = set_delete c
                                             (case userSockets s u of None \<Rightarrow> [] | Some cs \<Rightarrow> cs)
                                      in s\<lparr>userSockets :=
                                             (if length conns = 0
                                              then (userSockets s)(u := None)
                                              else (userSockets s)(u \<mapsto> conns))\<rparr>)
                                else s)
                  in (Returned, s1\<lparr>clients := (clients s1)(c := None),
                                    logged := logged s1 @ [LogInfo]\<rparr>)))"

text \<open>The \<open>close\<close> and \<open>error\<close> listeners of a socket.\<close>

definition onClose :: "state \<Rightarrow> ws \<Rightarrow> time \<Rightarrow> result" where
  "onClose st c now = removeClient st c now"

definition onError :: "state \<Rightarrow> ws \<Rightarrow> time \<Rightarrow> result" where
  "onError st c now = removeClient (st\<lparr>logged := logged st @ [LogError]\<rparr>) c now"

subsection \<open>Application-facing broadcasts\<close>

definition tracks :: "pid \<Rightarrow> state \<Rightarrow> ws \<Rightarrow> bool" where
  "tracks productId s c =
     (case clients s c of None \<Rightarrow> False | Some info \<Rightarrow> productId \<in> set (trackedProducts info))"

definition broadcastProductUpdate :: "state \<Rightarrow> pid \<Rightarrow> payload \<Rightarrow> time \<Rightarrow> result" where
  "broadcastProductUpdate st productId updateData now =
     broadcast st (PRODUCT_UPDATE productId updateData now) (Some (tracks productId))"

definition broadcastStockUpdate :: "state \<Rightarrow> pid \<Rightarrow> int \<Rightarrow> int \<Rightarrow> time \<Rightarrow> result" where
  "broadcastStockUpdate st productId newStock oldStock now =
     broadcast st (STOCK_UPDATE productId newStock oldStock now) (Some (tracks productId))"

text \<open>
  Arithmetic on JavaScript numbers. An operation on finite numbers gives its exact result
  rounded to the nearest binary64 number, a tie going to the even significand (\<open>fl\<close>): a
  number \<open>x\<close> with \<open>2^e \<le> |x| < 2^(e+1)\<close> is rounded to a multiple of \<open>2^(e-52)\<close>, where \<open>e\<close> is
  at least \<open>-1022\<close> (below that the numbers are subnormal), and a result of magnitude
  \<open>2^1024\<close> or more is infinite.
\<close>

definition pow2 :: "int \<Rightarrow> real" where
  "pow2 e = (if 0 \<le> e then 2 ^ nat e else 1 / 2 ^ nat (- e))"

definition roundHalfEven :: "real \<Rightarrow> int" where
  "roundHalfEven q =
     (let f = \<lfloor>q\<rfloor>
      in if q - of_int f < 1 / 2 then f
         else if 1 / 2 < q - of_int f then f + 1
         else if even f then f else f + 1)"

definition exponent :: "real \<Rightarrow> int" where
  "exponent x = max \<lfloor>log 2 \<bar>x\<bar>\<rfloor> (- 1022)"

definition fl :: "real \<Rightarrow> jsnum" where
  "fl x =
     (if x = 0 then Num 0
      else (let u = pow2 (exponent x - 52);
                y = of_int (roundHalfEven (x / u)) * u
            in if 2 ^ 1024 \<le> y then Infinity
               else if y \<le> - (2 ^ 1024) then NegInfinity
               else Num y))"

text \<open>Division and multiplication of a number by a finite number.\<close>

fun js_div :: "jsnum \<Rightarrow> real \<Rightarrow> jsnum" where
  "js_div (Num x) d =
     (if d = 0 then (if 0 < x then Infinity else if x < 0 then NegInfinity else NaN)
      else fl (x / d))"
| "js_div Infinity d = (if 0 \<le> d then Infinity else NegInfinity)"
| "js_div NegInfinity d = (if 0 \<le> d then NegInfinity else Infinity)"
| "js_div NaN d = NaN"

fun js_mul :: "jsnum \<Rightarrow> real \<Rightarrow> jsnum" where
  "js_mul (Num x) k = fl (x * k)"
| "js_mul Infinity k = (if 0 < k then Infinity else if k < 0 then NegInfinity else NaN)"
| "js_mul NegInfinity k = (if 0 < k then NegInfinity else if k < 0 then Infinity else NaN)"
| "js_mul NaN k = NaN"

text \<open>\<open>Math.round\<close>: the nearest integer, a tie going up; exact on a finite number.\<close>

fun Math_round :: "jsnum \<Rightarrow> jsnum" where
  "Math_round (Num x) = Num (of_int \<lfloor>x + 1 / 2\<rfloor>)"
| "Math_round Infinity = Infinity"
| "Math_round NegInfinity = NegInfinity"
| "Math_round NaN = NaN"

text \<open>
  The \<open>discount\<close> expression of \<open>broadcastPriceUpdate\<close>:
  \<open>oldPrice > newPrice ? Math.round(((oldPrice - newPrice) / oldPrice) * 100) : 0\<close>.
\<close>

definition discount :: "real \<Rightarrow> real \<Rightarrow> jsnum" where
  "discount newPrice oldPrice =
     (if oldPrice > newPrice
      then Math_round (js_mul (js_div (fl (oldPrice - newPrice)) oldPrice) 100)
      else Num 0)"

text \<open>A number that is not negative: a finite one from zero up, or \<open>Infinity\<close>.\<close>

fun nonneg :: "jsnum \<Rightarrow> bool" where
  "nonneg (Num x) = (0 \<le> x)"
| "nonneg Infinity = True"
| "nonneg NegInfinity = False"
| "nonneg NaN = False"

definition priceUpdateMessage :: "pid \<Rightarrow> real \<Rightarrow> real \<Rightarrow> time \<Rightarrow> message" where
  "priceUpdateMessage productId newPrice oldPrice now =
     PRICE_UPDATE productId newPrice oldPrice (discount newPrice oldPrice) now"

definition broadcastPriceUpdate :: "state \<Rightarrow> pid \<Rightarrow> real \<Rightarrow> real \<Rightarrow> time \<Rightarrow> result" where
  "broadcastPriceUpdate st productId newPrice oldPrice now =
     broadcast st (priceUpdateMessage productId newPrice oldPrice now) None"

definition broadcastNewProduct :: "state \<Rightarrow> payload \<Rightarrow> time \<Rightarrow> result" where
  "broadcastNewProduct st product now =
     broadcastToRoom st ''new-releases'' (NEW_PRODUCT product now) None"

definition broadcastUserActivity :: "state \<Rightarrow> uid option \<Rightarrow> payload \<Rightarrow> time \<Rightarrow> result" where
  "broadcastUserActivity st u activity now =
     broadcast st (USER_ACTIVITY u activity now)
       (Some (\<lambda>s c. case clients s c of
                       None \<Rightarrow> False
                     | Some info \<Rightarrow> truthy (userId info) \<and> userId info \<noteq> u))"

definition broadcastAnalyticsUpdate :: "state \<Rightarrow> payload \<Rightarrow> time \<Rightarrow> result" where
  "broadcastAnalyticsUpdate st analyticsData now =
     broadcastToRoom st ''admin-dashboard'' (ANALYTICS_UPDATE analyticsData now) None"

subsection \<open>Heartbeat\<close>

text \<open>
  The \<open>pong\<close> listener, and the callback of the interval timer. \<open>ws.terminate()\<close> and
  \<open>ws.ping()\<close> are calls into the transport; they are recorded in the logs \<open>terminated\<close> and
  \<open>pings\<close>.
\<close>

definition onPong :: "state \<Rightarrow> ws \<Rightarrow> state" where
  "onPong st c = st\<lparr>socks := (socks st)(c := (socks st c)\<lparr>isAlive := True\<rparr>)\<rparr>"

definition sweepOne :: "ws \<Rightarrow> state \<Rightarrow> state" where
  "sweepOne c s =
     (if \<not> isAlive (socks s c) then s\<lparr>terminated := terminated s @ [c]\<rparr>
      else s\<lparr>socks := (socks s)(c := (socks s c)\<lparr>isAlive := False\<rparr>),
             pings := pings s @ [c]\<rparr>)"

definition heartbeat :: "state \<Rightarrow> state" where
  "heartbeat st = fold sweepOne (wssClients st) st"


subsection \<open>Construction and teardown\<close>

text \<open>The state the constructor leaves, over a transport \<open>tr\<close> with no connection yet.\<close>

definition newSocketManager :: "(ws \<Rightarrow> socket) \<Rightarrow> state" where
  "newSocketManager tr =
     \<lparr>clients = Map.empty, rooms = Map.empty, userSockets = Map.empty, wssClients = [],
      socks = tr, sent = [], pings = [], terminated = [], logged = []\<rparr>"

definition destroy :: "state \<Rightarrow> state" where
  "destroy st =
     st\<lparr>terminated := terminated st @ wssClients st,
        clients := Map.empty, rooms := Map.empty, userSockets := Map.empty\<rparr>"

subsection \<open>The registry as a transition system\<close>

text \<open>
  Everything that can happen to a registry: the listeners the class registers, its public
  methods, and \<open>Transport\<close>, a change the transport makes on its own to the sockets and to
  \<open>wss.clients\<close> (a socket closing, a peer going away). The transport does not touch the
  flag \<open>isAlive\<close>, which is the class's own property on the socket object, and
  \<open>wss.clients\<close> is a set.
\<close>

datatype op =
    Connect ws "uid option" string time
  | Message ws frame time
  | Close ws time
  | Error ws time
  | JoinRoom ws room time
  | LeaveRoom ws room time
  | TrackProduct ws pid time
  | UntrackProduct ws pid time
  | Pong ws
  | Sweep
  | ProductUpdate pid payload time
  | StockUpdate pid int int time
  | PriceUpdate pid real real time
  | NewProduct payload time
  | UserActivity "uid option" payload time
  | Notify uid payload string time
  | AnalyticsUpdate payload time
  | Destroy
  | Transport "ws \<Rightarrow> socket" "ws list"

fun exec :: "state \<Rightarrow> op \<Rightarrow> result" where
  "exec st (Connect c u cid now) = onConnection (wssAccept st c) c u cid now"
| "exec st (Message c data now) = handleMessage st c data now"
| "exec st (Close c now) = onClose st c now"
| "exec st (Error c now) = onError st c now"
| "exec st (JoinRoom c r now) = joinRoom st c r now"
| "exec st (LeaveRoom c r now) = leaveRoom st c r now"
| "exec st (TrackProduct c p now) = trackProduct st c p now"
| "exec st (UntrackProduct c p now) = untrackProduct st c p now"
| "exec st (Pong c) = (Returned, onPong st c)"
| "exec st Sweep = (Returned, heartbeat st)"
| "exec st (ProductUpdate p d now) = broadcastProductUpdate st p d now"
| "exec st (StockUpdate p n old now) = broadcastStockUpdate st p n old now"
| "exec st (PriceUpdate p n old now) = broadcastPriceUpdate st p n old now"
| "exec st (NewProduct d now) = broadcastNewProduct st d now"
| "exec st (UserActivity u a now) = broadcastUserActivity st u a now"
| "exec st (Notify u n nid now) = sendNotification st u n nid now"
| "exec st (AnalyticsUpdate d now) = broadcastAnalyticsUpdate st d now"
| "exec st Destroy = (Returned, destroy st)"
| "exec st (Transport tr cs) =
     (Returned, st\<lparr>socks := (\<lambda>c. (tr c)\<lparr>isAlive := isAlive (socks st c)\<rparr>), wssClients := cs\<rparr>)"

text \<open>
  The transport creates a new socket object for every connection: the handle passed to
  the \<open>connection\<close> listener is not a key of the registry yet.
\<close>

fun enabled :: "state \<Rightarrow> op \<Rightarrow> bool" where
  "enabled st (Connect c u cid now) = (clients st c = None)"
| "enabled st (Transport tr cs) = distinct cs"
| "enabled st _ = True"

inductive reachable :: "state \<Rightarrow> bool" where
  init: "reachable (newSocketManager tr)"
| step: "reachable st \<Longrightarrow> enabled st x \<Longrightarrow> reachable (snd (exec st x))"

subsection \<open>The cross-index invariant\<close>

definition rooms_nonempty :: "state \<Rightarrow> bool" where
  "rooms_nonempty st = (\<forall>r ms. rooms st r = Some ms \<longrightarrow> ms \<noteq> [])"

definition user_index_live :: "state \<Rightarrow> bool" where
  "user_index_live st =
     (\<forall>u cs c. userSockets st u = Some cs \<longrightarrow> c \<in> set cs \<longrightarrow> clients st c \<noteq> None)"

text \<open>
  The invariant the operations keep, of which the two properties above are a part: the
  sets are duplicate-free, a key of the user index is truthy, a member of a room is a registered connection that lists the
  room, and a connection in a user's set is registered under that user.
\<close>

definition lists_room :: "state \<Rightarrow> ws \<Rightarrow> room \<Rightarrow> bool" where
  "lists_room st c r =
     (case clients st c of None \<Rightarrow> False | Some info \<Rightarrow> r \<in> set (clientRooms info))"

definition registered_as :: "state \<Rightarrow> ws \<Rightarrow> uid \<Rightarrow> bool" where
  "registered_as st c u =
     (case clients st c of None \<Rightarrow> False | Some info \<Rightarrow> userId info = Some u)"

definition index_ok :: "state \<Rightarrow> bool" where
  "index_ok st =
     ((\<forall>r ms. rooms st r = Some ms \<longrightarrow>
         ms \<noteq> [] \<and> distinct ms \<and> (\<forall>c \<in> set ms. lists_room st c r)) \<and>
      (\<forall>u cs. userSockets st u = Some cs \<longrightarrow>
         truthy (Some u) \<and> cs \<noteq> [] \<and> distinct cs \<and>
         (\<forall>c \<in> set cs. registered_as st c u)) \<and>
      (\<forall>c info. clients st c = Some info \<longrightarrow>
         distinct (clientRooms info) \<and> distinct (trackedProducts info)))"

subsection \<open>Auxiliary notions for the proofs\<close>

text \<open>Two states with the same three indexes.\<close>

definition same_index :: "state \<Rightarrow> state \<Rightarrow> bool" where
  "same_index st st' =
     (clients st' = clients st \<and> rooms st' = rooms st \<and> userSockets st' = userSockets st)"

text \<open>
  What \<open>removeClient\<close> does to one room's entry, and to the room index once the rooms
  \<open>ys\<close> have been visited.
\<close>

definition purge :: "ws \<Rightarrow> ws list option \<Rightarrow> ws list option" where
  "purge c mo =
     (case mo of
        None \<Rightarrow> None
      | Some ms \<Rightarrow> if set_delete c ms = [] then None else Some (set_delete c ms))"

definition purge_all :: "ws \<Rightarrow> room list \<Rightarrow> (room \<rightharpoonup> ws list) \<Rightarrow> (room \<rightharpoonup> ws list)" where
  "purge_all c ys R = (\<lambda>r. if r \<in> set ys then purge c (R r) else R r)"

subsection \<open>Example states\<close>

text \<open>
  A transport on which every socket is open and no send raises, and the states after two
  connections of user 7 and an anonymous one, the first two joining the room \<open>jazz\<close>.
\<close>

definition quietTransport :: "ws \<Rightarrow> socket" where
  "quietTransport = (\<lambda>c. \<lparr>readyState = OPEN, isAlive = False, sendRaises = False\<rparr>)"

definition demo1 :: state where
  "demo1 = snd (exec (newSocketManager quietTransport) (Connect 11 (Some 7) ''client_11'' 10))"

definition demo2 :: state where
  "demo2 = snd (exec demo1 (Connect 12 (Some 7) ''client_12'' 20))"

definition demo3 :: state where
  "demo3 = snd (exec demo2 (Connect 13 None ''client_13'' 30))"

definition demo4 :: state where
  "demo4 = snd (exec demo3 (JoinRoom 11 ''jazz'' 40))"

definition demo5 :: state where
  "demo5 = snd (exec demo4 (JoinRoom 12 ''jazz'' 50))"

subsection \<open>Notions for the delivery claims\<close>

text \<open>
  The members of a set a room broadcast is meant for, the state after a message has been
  sent to a list of connections, and the connections a loop of sends reaches before the
  first send that raises.
\<close>

definition receivers :: "state \<Rightarrow> ws list \<Rightarrow> ws option \<Rightarrow> ws list" where
  "receivers st ms excludeWs =
     filter (\<lambda>c. readyState (socks st c) = OPEN \<and> Some c \<noteq> excludeWs) ms"

definition post :: "state \<Rightarrow> ws list \<Rightarrow> message \<Rightarrow> state" where
  "post st cs m = st\<lparr>sent := sent st @ map (\<lambda>c. (c, m)) cs\<rparr>"

definition raises :: "state \<Rightarrow> ws \<Rightarrow> bool" where
  "raises st c = sendRaises (socks st c)"

definition until_raise :: "state \<Rightarrow> ws list \<Rightarrow> ws list" where
  "until_raise st cs = takeWhile (\<lambda>c. \<not> raises st c) cs"

definition deliver :: "(state \<Rightarrow> ws \<Rightarrow> bool) \<Rightarrow> message \<Rightarrow> state \<Rightarrow> ws \<Rightarrow> result" where
  "deliver Q m s c = (if Q s c then ws_send s c m else (Returned, s))"

text \<open>
  The state \<open>demo3\<close> after the transport has changed so that \<open>send\<close> raises on socket 11;
  all three sockets stay open.
\<close>

definition faultyTransport :: "ws \<Rightarrow> socket" where
  "faultyTransport =
     quietTransport(11 := \<lparr>readyState = OPEN, isAlive = False, sendRaises = True\<rparr>)"

definition faulty :: state where
  "faulty = snd (exec demo3 (Transport faultyTransport [11, 12, 13]))"

text \<open>The same change of the transport, after the two connections have joined \<open>jazz\<close>.\<close>

definition faulty5 :: state where
  "faulty5 = snd (exec demo5 (Transport faultyTransport [11, 12, 13]))"

text \<open>
  The state \<open>demo5\<close> after the transport has started to close socket 11: the socket is no
  longer open and its \<open>close\<close> event has not been handled yet.
\<close>

definition closingTransport :: "ws \<Rightarrow> socket" where
  "closingTransport =
     quietTransport(11 := \<lparr>readyState = CLOSING, isAlive = False, sendRaises = False\<rparr>)"

definition closing5 :: state where
  "closing5 = snd (exec demo5 (Transport closingTransport [11, 12, 13]))"

subsection \<open>The heartbeat over time\<close>



fun is_sweep :: "op \<Rightarrow> bool" where
  "is_sweep Sweep = True"
| "is_sweep _ = False"

definition sweep_times :: "(time \<times> op) list \<Rightarrow> time list" where
  "sweep_times tr = map fst (filter (\<lambda>e. is_sweep (snd e)) tr)"






text \<open>Two states with the same heartbeat data.\<close>

definition hb_same :: "state \<Rightarrow> state \<Rightarrow> bool" where
  "hb_same st st' =
     (wssClients st' = wssClients st \<and> socks st' = socks st \<and>
      terminated st' = terminated st \<and> pings st' = pings st)"



section \<open>Lemmas about the operations\<close>

subsection \<open>Operations that leave the indexes alone\<close>

lemma index_ok_cong:
  "clients st' = clients st \<Longrightarrow> rooms st' = rooms st \<Longrightarrow> userSockets st' = userSockets st
   \<Longrightarrow> index_ok st' = index_ok st"
  by (simp add: index_ok_def lists_room_def registered_as_def)

lemma same_index_refl [simp]: "same_index st st"
  by (simp add: same_index_def)

lemma same_index_trans: "same_index a b \<Longrightarrow> same_index b c \<Longrightarrow> same_index a c"
  by (simp add: same_index_def)

lemma ws_send_same: "same_index st (snd (ws_send st c m))"
  by (simp add: ws_send_def same_index_def)

lemma sendToClient_same: "same_index st (snd (sendToClient st c m))"
  by (simp add: sendToClient_def ws_send_same)

lemma forEach_same:
  assumes "\<And>s x. same_index s (snd (f s x))"
  shows "same_index st (snd (forEach xs f st))"
proof (induction xs arbitrary: st)
  case Nil
  show ?case by simp
next
  case (Cons x xs)
  obtain oc s1 where fx: "f st x = (oc, s1)" by (cases "f st x")
  have a: "same_index st s1" using assms [of st x] by (simp add: fx)
  show ?case
  proof (cases oc)
    case Returned
    then show ?thesis using fx a Cons.IH [of s1] by (auto intro: same_index_trans)
  next
    case Threw
    then show ?thesis using fx a by simp
  qed
qed

lemma broadcast_same: "same_index st (snd (broadcast st m flt))"
  unfolding broadcast_def
  by (rule forEach_same) (simp add: ws_send_same)

lemma broadcastToRoom_same: "same_index st (snd (broadcastToRoom st r m ex))"
  unfolding broadcastToRoom_def
  by (cases "rooms st r") (auto intro!: forEach_same simp: ws_send_same)

lemma sendNotification_same: "same_index st (snd (sendNotification st u n nid now))"
  unfolding sendNotification_def
  by (cases "userSockets st u") (auto intro!: forEach_same simp: sendToClient_same)

lemma index_ok_same: "same_index st st' \<Longrightarrow> index_ok st \<Longrightarrow> index_ok st'"
  by (simp add: same_index_def index_ok_def lists_room_def registered_as_def)

lemma set_add_set [simp]: "set (set_add x xs) = insert x (set xs)"
  by (auto simp: set_add_def)

lemma set_add_distinct [simp]: "distinct (set_add x xs) = distinct xs"
  by (auto simp: set_add_def)

lemma set_add_nonempty [simp]: "set_add x xs \<noteq> []"
  by (auto simp: set_add_def)

lemma set_delete_set [simp]: "set (set_delete x xs) = set xs - {x}"
  by (auto simp: set_delete_def)

lemma set_delete_distinct [simp]: "distinct xs \<Longrightarrow> distinct (set_delete x xs)"
  by (simp add: set_delete_def distinct_removeAll)

lemma index_ok_snd_same: "same_index st (snd r) \<Longrightarrow> index_ok st \<Longrightarrow> index_ok (snd r)"
  by (rule index_ok_same)

lemma andThen_same:
  assumes "same_index st (snd r)" "\<And>s. same_index s (snd (f s))"
  shows "same_index st (snd (andThen r f))"
proof (cases r)
  case (Pair oc s)
  then show ?thesis using assms(1) assms(2) [of s]
    by (cases oc) (auto simp: andThen_def intro: same_index_trans)
qed

lemma trackProduct_ok: "index_ok st \<Longrightarrow> index_ok (snd (trackProduct st c p now))"
proof (cases "clients st c")
  case None
  then show "index_ok st \<Longrightarrow> ?thesis" by (simp add: trackProduct_def)
next
  case (Some info)
  assume ok: "index_ok st"
  let ?st1 = "st\<lparr>clients := (clients st)(c \<mapsto> info\<lparr>trackedProducts := set_add p (trackedProducts info)\<rparr>)\<rparr>"
  have "index_ok ?st1" using ok Some
    by (fastforce simp: index_ok_def lists_room_def registered_as_def)
  then show ?thesis using Some sendToClient_same [of ?st1]
    by (auto simp: trackProduct_def intro: index_ok_same)
qed

lemma untrackProduct_ok: "index_ok st \<Longrightarrow> index_ok (snd (untrackProduct st c p now))"
proof (cases "clients st c")
  case None
  then show "index_ok st \<Longrightarrow> ?thesis" by (simp add: untrackProduct_def)
next
  case (Some info)
  assume ok: "index_ok st"
  let ?st1 = "st\<lparr>clients := (clients st)(c \<mapsto> info\<lparr>trackedProducts := set_delete p (trackedProducts info)\<rparr>)\<rparr>"
  have "index_ok ?st1" using ok Some
    by (fastforce simp: index_ok_def lists_room_def registered_as_def)
  then show ?thesis using Some sendToClient_same [of ?st1]
    by (auto simp: untrackProduct_def intro: index_ok_same)
qed

lemma joinRoom_ok: "index_ok st \<Longrightarrow> index_ok (snd (joinRoom st c r now))"
proof (cases "clients st c")
  case None
  then show "index_ok st \<Longrightarrow> ?thesis" by (simp add: joinRoom_def)
next
  case (Some info)
  assume ok: "index_ok st"
  define members where "members = set_add c (case rooms st r of None \<Rightarrow> [] | Some ms \<Rightarrow> ms)"
  define st1 where "st1 = st\<lparr>rooms := (rooms st)(r \<mapsto> members),
     clients := (clients st)(c \<mapsto> info\<lparr>clientRooms := set_add r (clientRooms info)\<rparr>)\<rparr>"
  have "index_ok st1" using ok Some unfolding st1_def members_def
    by (fastforce simp: index_ok_def lists_room_def registered_as_def split: option.splits)
  moreover have "same_index st1 (snd (joinRoom st c r now))"
    using Some unfolding joinRoom_def st1_def members_def
    by (simp add: Let_def) (intro andThen_same sendToClient_same broadcastToRoom_same)
  ultimately show ?thesis by (rule index_ok_same [rotated])
qed

lemma leaveRoom_ok: "index_ok st \<Longrightarrow> index_ok (snd (leaveRoom st c r now))"
proof (cases "clients st c")
  case None
  then show "index_ok st \<Longrightarrow> ?thesis" by (simp add: leaveRoom_def)
next
  case (Some info)
  assume ok: "index_ok st"
  show ?thesis
  proof (cases "rooms st r")
    case None
    then show ?thesis using ok Some by (simp add: leaveRoom_def)
  next
    case (Some ms)
    define members where "members = set_delete c ms"
    define st1 where "st1 = st\<lparr>rooms := (if length members = 0 then (rooms st)(r := None)
                                       else (rooms st)(r \<mapsto> members)),
       clients := (clients st)(c \<mapsto> info\<lparr>clientRooms := set_delete r (clientRooms info)\<rparr>)\<rparr>"
    have "index_ok st1" using ok Some \<open>clients st c = Some info\<close> unfolding st1_def members_def
      by (fastforce simp: index_ok_def lists_room_def registered_as_def split: option.splits if_splits)
    moreover have "same_index st1 (snd (leaveRoom st c r now))"
      using Some \<open>clients st c = Some info\<close> unfolding leaveRoom_def st1_def members_def
      by (simp add: Let_def sendToClient_same)
    ultimately show ?thesis by (rule index_ok_same [rotated])
  qed
qed

lemma unregistered_nowhere:
  assumes "index_ok st" "clients st c = None"
  shows "(\<forall>r ms. rooms st r = Some ms \<longrightarrow> c \<notin> set ms) \<and>
         (\<forall>u cs. userSockets st u = Some cs \<longrightarrow> c \<notin> set cs)"
  using assms by (fastforce simp: index_ok_def lists_room_def registered_as_def)

lemma wssAccept_same: "same_index st (wssAccept st c)"
  by (simp add: wssAccept_def same_index_def)

lemma onConnection_ok:
  assumes ok: "index_ok st" and fresh: "clients st c = None"
  shows "index_ok (snd (onConnection st c u cid now))"
proof -
  define info where "info = \<lparr>clientId = cid, userId = u, connectedAt = now, lastActivity = now,
                   clientRooms = [], trackedProducts = []\<rparr>"
  define st1 where "st1 = st\<lparr>logged := logged st @ [LogInfo], clients := (clients st)(c \<mapsto> info)\<rparr>"
  define st2 where "st2 = (if truthy u
                 then (case u of
                         None \<Rightarrow> st1
                       | Some n \<Rightarrow>
                           st1\<lparr>userSockets := (userSockets st1)
                             (n \<mapsto> set_add c
                                (case userSockets st1 n of None \<Rightarrow> [] | Some s \<Rightarrow> s))\<rparr>)
                 else st1)"
  note nw = unregistered_nowhere [OF ok fresh]
  have ok1: "index_ok st1" using ok fresh nw unfolding st1_def info_def
    by (fastforce simp: index_ok_def lists_room_def registered_as_def)
  have c1: "clients st1 c = Some info" "userId info = u" by (simp_all add: st1_def info_def)
  have ok2: "index_ok st2"
  proof (cases "truthy u")
    case False
    then show ?thesis using ok1 by (simp add: st2_def)
  next
    case True
    then obtain n where u: "u = Some n" by (cases u) (auto simp: truthy_def)
    show ?thesis using ok1 c1 True u unfolding st2_def
      by (fastforce simp: index_ok_def lists_room_def registered_as_def split: option.splits)
  qed
  have "same_index st2 (snd (onConnection st c u cid now))"
    unfolding onConnection_def Let_def info_def [symmetric] st1_def [symmetric] st2_def [symmetric]
    by (intro andThen_same sendToClient_same) (simp add: same_index_def)
  with ok2 show ?thesis by (rule index_ok_same [rotated])
qed

lemma tryCatch_same: "same_index st (snd r) \<Longrightarrow> same_index st (snd (tryCatch r))"
  by (cases r) (auto simp: tryCatch_def same_index_def split: outcome.splits)

lemma tryCatch_ok: "index_ok (snd r) \<Longrightarrow> index_ok (snd (tryCatch r))"
  by (rule index_ok_same [OF tryCatch_same]) simp_all

lemma dispatch_ok: "index_ok st \<Longrightarrow> index_ok (snd (dispatch st c info now data))"
proof (cases data)
  case (F_USER_TYPING r)
  then show "index_ok st \<Longrightarrow> ?thesis"
    using broadcastToRoom_same [of st] by (auto intro: index_ok_same)
next
  case F_HEARTBEAT
  then show "index_ok st \<Longrightarrow> ?thesis"
    using sendToClient_same [of st] by (auto intro: index_ok_same)
next
  case (F_UNKNOWN t)
  then show "index_ok st \<Longrightarrow> ?thesis"
    by (simp add: index_ok_def lists_room_def registered_as_def)
qed (simp_all add: joinRoom_ok leaveRoom_ok trackProduct_ok untrackProduct_ok)

lemma handleMessage_ok:
  assumes ok: "index_ok st"
  shows "index_ok (snd (handleMessage st c data now))"
proof -
  have "index_ok (snd (if data = F_MALFORMED then (Threw, st)
        else (case clients st c of
                None \<Rightarrow> (Returned, st)
              | Some info \<Rightarrow>
                  dispatch (st\<lparr>clients := (clients st)(c \<mapsto> info\<lparr>lastActivity := now\<rparr>)\<rparr>)
                    c info now data)))"
  proof (cases "clients st c")
    case None
    then show ?thesis using ok by simp
  next
    case (Some info)
    have "index_ok (st\<lparr>clients := (clients st)(c \<mapsto> info\<lparr>lastActivity := now\<rparr>)\<rparr>)"
      using ok Some by (fastforce simp: index_ok_def lists_room_def registered_as_def)
    then show ?thesis using ok Some by (simp add: dispatch_ok)
  qed
  then show ?thesis unfolding handleMessage_def by (rule tryCatch_ok)
qed

lemma purge_idem: "purge c (purge c mo) = purge c mo"
  by (auto simp: purge_def set_delete_def split: option.splits)

lemma purge_all_Nil [simp]: "purge_all c [] R = R"
  by (simp add: purge_all_def)

lemma purge_all_Cons: "purge_all c ys (R(r := purge c (R r))) = purge_all c (r # ys) R"
  by (auto simp: purge_all_def purge_idem)

lemma removeFromRoom_effect:
  "clients (snd (removeFromRoom c info now s r)) = clients s \<and>
   userSockets (snd (removeFromRoom c info now s r)) = userSockets s \<and>
   rooms (snd (removeFromRoom c info now s r)) = (rooms s)(r := purge c (rooms s r))"
proof (cases "rooms s r")
  case None
  then show ?thesis by (auto simp: removeFromRoom_def purge_def)
next
  case (Some ms)
  show ?thesis
  proof (cases "set_delete c ms = []")
    case True
    then show ?thesis using Some by (simp add: removeFromRoom_def purge_def)
  next
    case False
    let ?s1 = "s\<lparr>rooms := (rooms s)(r \<mapsto> set_delete c ms)\<rparr>"
    have "same_index ?s1 (snd (broadcastToRoom ?s1 r (USER_LEFT (userId info) (length (set_delete c ms)) now) None))"
      by (rule broadcastToRoom_same)
    then show ?thesis using Some False
      by (simp add: removeFromRoom_def purge_def Let_def same_index_def)
  qed
qed

lemma removeLoop_effect:
  "\<exists>ys. set ys \<subseteq> set xs \<and>
        (fst (forEach xs (removeFromRoom c info now) st) = Returned \<longrightarrow> set ys = set xs) \<and>
        clients (snd (forEach xs (removeFromRoom c info now) st)) = clients st \<and>
        userSockets (snd (forEach xs (removeFromRoom c info now) st)) = userSockets st \<and>
        rooms (snd (forEach xs (removeFromRoom c info now) st)) = purge_all c ys (rooms st)"
proof (induction xs arbitrary: st)
  case Nil
  show ?case by (rule exI [of _ "[]"]) simp
next
  case (Cons x xs)
  obtain oc s1 where fx: "removeFromRoom c info now st x = (oc, s1)"
    by (cases "removeFromRoom c info now st x")
  from removeFromRoom_effect [of c info now st x] fx
  have e1: "clients s1 = clients st" "userSockets s1 = userSockets st"
    "rooms s1 = (rooms st)(x := purge c (rooms st x))" by simp_all
  show ?case
  proof (cases oc)
    case Threw
    have "rooms s1 = purge_all c [x] (rooms st)"
      using e1 by (auto simp: purge_all_def)
    then show ?thesis using fx Threw e1
      by (intro exI [of _ "[x]"]) simp
  next
    case Returned
    from Cons.IH [of s1] obtain ys where ys: "set ys \<subseteq> set xs"
      "fst (forEach xs (removeFromRoom c info now) s1) = Returned \<longrightarrow> set ys = set xs"
      "clients (snd (forEach xs (removeFromRoom c info now) s1)) = clients s1"
      "userSockets (snd (forEach xs (removeFromRoom c info now) s1)) = userSockets s1"
      "rooms (snd (forEach xs (removeFromRoom c info now) s1)) = purge_all c ys (rooms s1)"
      by blast
    have "purge_all c ys (rooms s1) = purge_all c (x # ys) (rooms st)"
      using e1 by (simp add: purge_all_Cons)
    then show ?thesis using fx Returned e1 ys
      by (intro exI [of _ "x # ys"]) auto
  qed
qed

lemma index_ok_purge:
  assumes "index_ok st" "clients s = clients st" "userSockets s = userSockets st"
    "rooms s = purge_all c ys (rooms st)"
  shows "index_ok s"
  using assms
  by (fastforce simp: index_ok_def lists_room_def registered_as_def purge_all_def purge_def
      split: option.splits if_splits)

lemma index_okI:
  assumes "\<And>r ms. rooms st r = Some ms \<Longrightarrow>
             ms \<noteq> [] \<and> distinct ms \<and> (\<forall>c \<in> set ms. lists_room st c r)"
    and "\<And>u cs. userSockets st u = Some cs \<Longrightarrow>
             truthy (Some u) \<and> cs \<noteq> [] \<and> distinct cs \<and> (\<forall>c \<in> set cs. registered_as st c u)"
    and "\<And>c info. clients st c = Some info \<Longrightarrow>
             distinct (clientRooms info) \<and> distinct (trackedProducts info)"
  shows "index_ok st"
  using assms unfolding index_ok_def by blast

lemma index_ok_roomD:
  "index_ok st \<Longrightarrow> rooms st r = Some ms \<Longrightarrow>
     ms \<noteq> [] \<and> distinct ms \<and> (\<forall>c \<in> set ms. lists_room st c r)"
  unfolding index_ok_def by blast

lemma index_ok_userD:
  "index_ok st \<Longrightarrow> userSockets st u = Some cs \<Longrightarrow>
     truthy (Some u) \<and> cs \<noteq> [] \<and> distinct cs \<and> (\<forall>c \<in> set cs. registered_as st c u)"
  unfolding index_ok_def by blast

lemma index_ok_clientD:
  "index_ok st \<Longrightarrow> clients st c = Some info \<Longrightarrow>
     distinct (clientRooms info) \<and> distinct (trackedProducts info)"
  unfolding index_ok_def by blast

lemma lists_room_unreg:
  "d \<noteq> c \<Longrightarrow> lists_room (s\<lparr>clients := (clients s)(c := None), logged := L\<rparr>) d r = lists_room s d r"
  by (simp add: lists_room_def)

lemma removeClient_final_ok:
  assumes ok: "index_ok st" and reg: "clients st c = Some info"
    and s: "clients s = clients st" "userSockets s = userSockets st"
       "rooms s = purge_all c ys (rooms st)" "set ys = set (clientRooms info)"
    and s1: "s1 = (case userId info of
         None \<Rightarrow> s
       | Some u \<Rightarrow>
           if truthy (userId info) \<and> userSockets s u \<noteq> None
           then (let conns = set_delete c
                        (case userSockets s u of None \<Rightarrow> [] | Some cs \<Rightarrow> cs)
                 in s\<lparr>userSockets :=
                        (if length conns = 0
                         then (userSockets s)(u := None)
                         else (userSockets s)(u \<mapsto> conns))\<rparr>)
           else s)"
  shows "index_ok (s1\<lparr>clients := (clients s1)(c := None), logged := L\<rparr>)"
proof -
  note s1_def = s1
  have s1_rooms: "rooms s1 = rooms s" and s1_clients: "clients s1 = clients s"
    by (auto simp: s1_def Let_def split: option.splits)
  have oks: "index_ok s" using ok s(1,2,3) by (rule index_ok_purge)
  \<comment> \<open>after the loop no room holds the connection\<close>
  have notin: "c \<notin> set ms" if "rooms s r = Some ms" for r ms
  proof
    assume cin: "c \<in> set ms"
    show False
    proof (cases "r \<in> set ys")
      case True
      then have "rooms s r = purge c (rooms st r)" using s(3) by (simp add: purge_all_def)
      then show False using that cin
        by (auto simp: purge_def split: option.splits if_splits)
    next
      case False
      then have "rooms st r = Some ms" using s(3) that by (simp add: purge_all_def)
      then have "lists_room st c r" using index_ok_roomD [OF ok] cin by blast
      then show False using reg False s(4) by (simp add: lists_room_def)
    qed
  qed
  \<comment> \<open>the user index after the removal\<close>
  have users1: "truthy (Some u) \<and> cs \<noteq> [] \<and> distinct cs \<and> c \<notin> set cs \<and>
      (\<forall>d \<in> set cs. registered_as s d u)" if u1: "userSockets s1 u = Some cs" for u cs
  proof -
    have own: "userId info = Some v" if "userSockets s v = Some ds" "c \<in> set ds" for v ds
    proof -
      have "registered_as s c v" using index_ok_userD [OF oks that(1)] that(2) by blast
      then show ?thesis using reg s(1) by (simp add: registered_as_def)
    qed
    show ?thesis
    proof (cases "userId info")
      case None
      then have e: "userSockets s1 = userSockets s" by (simp add: s1_def)
      have "c \<notin> set cs" using own [of u cs] u1 e None by auto
      then show ?thesis using index_ok_userD [OF oks, of u cs] u1 e by simp
    next
      case (Some w)
      show ?thesis
      proof (cases "truthy (userId info) \<and> userSockets s w \<noteq> None")
        case False
        then have e: "userSockets s1 = userSockets s" using Some by (auto simp: s1_def)
        have "c \<notin> set cs"
        proof
          assume "c \<in> set cs"
          then have "userId info = Some u" using own [of u cs] u1 e by simp
          then have "u = w" using Some by simp
          moreover have "truthy (Some u)" using index_ok_userD [OF oks, of u cs] u1 e by simp
          ultimately show False using False Some u1 e by simp
        qed
        then show ?thesis using index_ok_userD [OF oks, of u cs] u1 e by simp
      next
        case True
        then obtain ws0 where w0: "userSockets s w = Some ws0" by auto
        have e: "userSockets s1 =
            (if set_delete c ws0 = [] then (userSockets s)(w := None)
             else (userSockets s)(w \<mapsto> set_delete c ws0))"
          using Some True w0 by (simp add: s1_def Let_def)
        show ?thesis
        proof (cases "u = w")
          case True
          then have "cs = set_delete c ws0 \<and> set_delete c ws0 \<noteq> []"
            using u1 e by (auto split: if_splits)
          then show ?thesis using index_ok_userD [OF oks w0] True by auto
        next
          case False
          then have uu: "userSockets s u = Some cs" using u1 e by (auto split: if_splits)
          have "c \<notin> set cs" using own [OF uu] Some False by auto
          then show ?thesis using index_ok_userD [OF oks uu] by simp
        qed
      qed
    qed
  qed
  show ?thesis
  proof (rule index_okI)
    fix r ms assume "rooms (s1\<lparr>clients := (clients s1)(c := None), logged := L\<rparr>) r = Some ms"
    then have r: "rooms s r = Some ms" by (simp add: s1_rooms)
    have "\<forall>d \<in> set ms. lists_room (s1\<lparr>clients := (clients s1)(c := None), logged := L\<rparr>) d r"
    proof
      fix d assume d: "d \<in> set ms"
      then have "d \<noteq> c" using notin [OF r] by auto
      moreover have "lists_room s d r" using index_ok_roomD [OF oks r] d by blast
      ultimately show "lists_room (s1\<lparr>clients := (clients s1)(c := None), logged := L\<rparr>) d r"
        by (simp add: lists_room_def s1_clients)
    qed
    then show "ms \<noteq> [] \<and> distinct ms \<and>
        (\<forall>d \<in> set ms. lists_room (s1\<lparr>clients := (clients s1)(c := None), logged := L\<rparr>) d r)"
      using index_ok_roomD [OF oks r] by blast
  next
    fix u cs assume "userSockets (s1\<lparr>clients := (clients s1)(c := None), logged := L\<rparr>) u = Some cs"
    then have u1: "userSockets s1 u = Some cs" by simp
    have "\<forall>d \<in> set cs. registered_as (s1\<lparr>clients := (clients s1)(c := None), logged := L\<rparr>) d u"
    proof
      fix d assume d: "d \<in> set cs"
      then have "d \<noteq> c" using users1 [OF u1] by auto
      moreover have "registered_as s d u" using users1 [OF u1] d by blast
      ultimately show "registered_as (s1\<lparr>clients := (clients s1)(c := None), logged := L\<rparr>) d u"
        by (simp add: registered_as_def s1_clients)
    qed
    then show "truthy (Some u) \<and> cs \<noteq> [] \<and> distinct cs \<and>
        (\<forall>d \<in> set cs. registered_as (s1\<lparr>clients := (clients s1)(c := None), logged := L\<rparr>) d u)"
      using users1 [OF u1] by blast
  next
    fix d i assume "clients (s1\<lparr>clients := (clients s1)(c := None), logged := L\<rparr>) d = Some i"
    then have "clients s d = Some i" by (auto simp: s1_clients split: if_splits)
    then show "distinct (clientRooms i) \<and> distinct (trackedProducts i)"
      using index_ok_clientD [OF oks] by blast
  qed
qed

lemma removeClient_ok:
  assumes ok: "index_ok st"
  shows "index_ok (snd (removeClient st c now))"
proof (cases "clients st c")
  case None
  then show ?thesis using ok by (simp add: removeClient_def)
next
  case (Some info)
  obtain oc s where loop: "forEach (clientRooms info) (removeFromRoom c info now) st = (oc, s)"
    by (cases "forEach (clientRooms info) (removeFromRoom c info now) st")
  from removeLoop_effect [of "clientRooms info" c info now st] loop
  obtain ys where ys: "set ys \<subseteq> set (clientRooms info)"
    "oc = Returned \<longrightarrow> set ys = set (clientRooms info)"
    "clients s = clients st" "userSockets s = userSockets st"
    "rooms s = purge_all c ys (rooms st)"
    by auto
  show ?thesis
  proof (cases oc)
    case Threw
    have "index_ok s" using ok ys(3,4,5) by (rule index_ok_purge)
    then show ?thesis using Some loop Threw by (simp add: removeClient_def andThen_def)
  next
    case Returned
    then have "set ys = set (clientRooms info)" using ys(2) by simp
    from removeClient_final_ok [OF ok Some ys(3,4,5) this refl]
    show ?thesis using Some loop Returned by (simp add: removeClient_def andThen_def Let_def)
  qed
qed

lemma logged_ok: "index_ok (st\<lparr>logged := L\<rparr>) = index_ok st"
  by (simp add: index_ok_def lists_room_def registered_as_def)

lemma sweepOne_same: "same_index s (sweepOne c s)"
  by (simp add: sweepOne_def same_index_def)

lemma heartbeat_same: "same_index st (heartbeat st)"
proof -
  have "same_index st (fold sweepOne cs st)" for cs
  proof (induction cs arbitrary: st)
    case Nil
    show ?case by simp
  next
    case (Cons a cs)
    show ?case using sweepOne_same [of st a] Cons.IH [of "sweepOne a st"]
      by (auto intro: same_index_trans)
  qed
  then show ?thesis by (simp add: heartbeat_def)
qed

lemma destroy_ok: "index_ok (destroy st)"
  by (simp add: destroy_def index_ok_def)

lemma newSocketManager_ok: "index_ok (newSocketManager tr)"
  by (simp add: newSocketManager_def index_ok_def)

lemma exec_ok:
  assumes "index_ok st" "enabled st x"
  shows "index_ok (snd (exec st x))"
proof (cases x)
  case (Connect c u cid now)
  have "index_ok (wssAccept st c)" using assms(1) wssAccept_same by (rule index_ok_same [rotated])
  moreover have "clients (wssAccept st c) c = None" using assms(2) Connect by (simp add: wssAccept_def)
  ultimately show ?thesis using Connect by (simp add: onConnection_ok)
next
  case (Message c data now)
  then show ?thesis using assms(1) by (simp add: handleMessage_ok)
next
  case (Close c now)
  then show ?thesis using assms(1) by (simp add: onClose_def removeClient_ok)
next
  case (Error c now)
  then show ?thesis using assms(1) by (simp add: onError_def removeClient_ok logged_ok)
next
  case (JoinRoom c r now)
  then show ?thesis using assms(1) by (simp add: joinRoom_ok)
next
  case (LeaveRoom c r now)
  then show ?thesis using assms(1) by (simp add: leaveRoom_ok)
next
  case (TrackProduct c p now)
  then show ?thesis using assms(1) by (simp add: trackProduct_ok)
next
  case (UntrackProduct c p now)
  then show ?thesis using assms(1) by (simp add: untrackProduct_ok)
next
  case (Pong c)
  then show ?thesis using assms(1) by (simp add: onPong_def index_ok_def lists_room_def registered_as_def)
next
  case Sweep
  then show ?thesis using assms(1) heartbeat_same [of st] by (auto intro: index_ok_same)
next
  case (ProductUpdate p d now)
  then show ?thesis using assms(1) broadcast_same [of st]
    by (auto simp: broadcastProductUpdate_def intro: index_ok_same)
next
  case (StockUpdate p n old now)
  then show ?thesis using assms(1) broadcast_same [of st]
    by (auto simp: broadcastStockUpdate_def intro: index_ok_same)
next
  case (PriceUpdate p n old now)
  then show ?thesis using assms(1) broadcast_same [of st]
    by (auto simp: broadcastPriceUpdate_def intro: index_ok_same)
next
  case (NewProduct d now)
  then show ?thesis using assms(1) broadcastToRoom_same [of st]
    by (auto simp: broadcastNewProduct_def intro: index_ok_same)
next
  case (UserActivity u a now)
  then show ?thesis using assms(1) broadcast_same [of st]
    by (auto simp: broadcastUserActivity_def intro: index_ok_same)
next
  case (Notify u n nid now)
  then show ?thesis using assms(1) sendNotification_same [of st u n nid now]
    by (auto intro: index_ok_same)
next
  case (AnalyticsUpdate d now)
  then show ?thesis using assms(1) broadcastToRoom_same [of st]
    by (auto simp: broadcastAnalyticsUpdate_def intro: index_ok_same)
next
  case Destroy
  then show ?thesis by (simp add: destroy_ok)
next
  case (Transport tr cs)
  then show ?thesis using assms(1) by (simp add: index_ok_def lists_room_def registered_as_def)
qed

lemma reachable_ok: "reachable st \<Longrightarrow> index_ok st"
  by (induction rule: reachable.induct) (simp_all add: newSocketManager_ok exec_ok)

lemma index_ok_cross: "index_ok st \<Longrightarrow> rooms_nonempty st \<and> user_index_live st"
  unfolding index_ok_def rooms_nonempty_def user_index_live_def registered_as_def
  by (fastforce split: option.splits)

lemma join_then_leave:
  assumes ok: "index_ok st" and only: "rooms (snd (joinRoom st a r t)) r = Some [a]"
  shows "rooms (snd (leaveRoom (snd (joinRoom st a r t)) a r t')) r = None"
proof -
  let ?s = "snd (joinRoom st a r t)"
  have oks: "index_ok ?s" using ok by (rule joinRoom_ok)
  then have "lists_room ?s a r" using index_ok_roomD [OF oks only] by simp
  then obtain info where info: "clients ?s a = Some info" by (auto simp: lists_room_def split: option.splits)
  let ?s1 = "?s\<lparr>rooms := (rooms ?s)(r := None),
       clients := (clients ?s)(a \<mapsto> info\<lparr>clientRooms := set_delete r (clientRooms info)\<rparr>)\<rparr>"
  have "same_index ?s1 (snd (sendToClient ?s1 a (ROOM_LEFT r t')))" by (rule sendToClient_same)
  then show ?thesis using info only
    by (simp add: leaveRoom_def Let_def set_delete_def same_index_def)
qed

subsection \<open>Evaluating the example states\<close>

lemmas run_defs = newSocketManager_def quietTransport_def onConnection_def wssAccept_def
  sendToClient_def ws_send_def andThen_def set_add_def set_delete_def truthy_def Let_def
  joinRoom_def broadcastToRoom_def leaveRoom_def

lemmas demo_defs = demo5_def demo4_def demo3_def demo2_def demo1_def

lemma reachable_demo1: "reachable demo1"
  unfolding demo1_def
  by (rule reachable.step [OF reachable.init]) (simp add: newSocketManager_def)

lemma reachable_demo2: "reachable demo2"
  unfolding demo2_def
  by (rule reachable.step [OF reachable_demo1]) (simp add: demo_defs run_defs)

lemma reachable_demo3: "reachable demo3"
  unfolding demo3_def
  by (rule reachable.step [OF reachable_demo2]) (simp add: demo_defs run_defs)

lemma reachable_demo4: "reachable demo4"
  unfolding demo4_def
  by (rule reachable.step [OF reachable_demo3]) simp

lemma reachable_demo5: "reachable demo5"
  unfolding demo5_def
  by (rule reachable.step [OF reachable_demo4]) simp

lemma demo5_rooms: "rooms demo5 = [''jazz'' \<mapsto> [11, 12]]"
  by (simp add: demo_defs run_defs)

lemma demo5_userSockets: "userSockets demo5 = [7 \<mapsto> [11, 12]]"
  by (simp add: demo_defs run_defs)

lemma demo5_wssClients: "wssClients demo5 = [11, 12, 13]"
  by (simp add: demo_defs run_defs)

subsection \<open>What the send loops deliver\<close>

lemma post_Nil [simp]: "post st [] m = st"
  by (simp add: post_def)

lemma post_post: "post (post st as m) bs m = post st (as @ bs) m"
  by (simp add: post_def)

lemma post_fields [simp]:
  "socks (post st cs m) = socks st" "clients (post st cs m) = clients st"
  "rooms (post st cs m) = rooms st" "userSockets (post st cs m) = userSockets st"
  "wssClients (post st cs m) = wssClients st" "logged (post st cs m) = logged st"
  "sent (post st cs m) = sent st @ map (\<lambda>c. (c, m)) cs"
  by (simp_all add: post_def)

lemma raises_post [simp]: "raises (post st cs m) = raises st"
  by (simp add: raises_def fun_eq_iff)

lemma until_raise_post [simp]: "until_raise (post st cs m) = until_raise st"
  by (simp add: until_raise_def fun_eq_iff)

lemma ws_send_post:
  "ws_send st c m = (if raises st c then (Threw, st) else (Returned, post st [c] m))"
  by (simp add: ws_send_def raises_def post_def)

lemma forEach_deliver:
  assumes stable: "\<And>s l. Q (s\<lparr>sent := l\<rparr>) = Q s"
  shows "forEach cs (deliver Q m) st =
           (if list_ex (raises st) (filter (Q st) cs) then Threw else Returned,
            post st (until_raise st (filter (Q st) cs)) m)"
proof (induction cs arbitrary: st)
  case Nil
  show ?case by (simp add: until_raise_def)
next
  case (Cons x xs)
  have Qp: "Q (post st [x] m) = Q st" by (simp add: post_def stable)
  show ?case
  proof (cases "Q st x")
    case False
    then show ?thesis using Cons.IH [of st] by (simp add: deliver_def)
  next
    case True
    show ?thesis
    proof (cases "raises st x")
      case True
      then show ?thesis using \<open>Q st x\<close> by (simp add: deliver_def ws_send_post until_raise_def)
    next
      case False
      then show ?thesis using \<open>Q st x\<close> Cons.IH [of "post st [x] m"] Qp
        by (simp add: deliver_def ws_send_post until_raise_def post_post)
    qed
  qed
qed

lemma until_raise_all: "\<not> list_ex (raises st) cs \<Longrightarrow> until_raise st cs = cs"
  by (simp add: until_raise_def list_ex_iff)

lemma broadcastToRoom_deliver:
  "broadcastToRoom st r m ex =
     (case rooms st r of
        None \<Rightarrow> (Returned, st)
      | Some ms \<Rightarrow>
          (if list_ex (raises st) (receivers st ms ex) then Threw else Returned,
           post st (until_raise st (receivers st ms ex)) m))"
proof (cases "rooms st r")
  case None
  then show ?thesis by (simp add: broadcastToRoom_def)
next
  case (Some ms)
  have "(\<lambda>s client. if readyState (socks s client) = OPEN \<and> Some client \<noteq> ex
               then ws_send s client m else (Returned, s)) =
        deliver (\<lambda>s c. readyState (socks s c) = OPEN \<and> Some c \<noteq> ex) m"
    by (simp add: deliver_def fun_eq_iff)
  then show ?thesis using Some
    by (simp add: broadcastToRoom_def forEach_deliver receivers_def)
qed

lemma broadcast_deliver:
  assumes "\<And>f. flt = Some f \<Longrightarrow> (\<forall>s l. f (s\<lparr>sent := l\<rparr>) = f s)"
  shows "broadcast st m flt =
     (let targets = filter (\<lambda>c. readyState (socks st c) = OPEN \<and>
                                 (case flt of None \<Rightarrow> True | Some f \<Rightarrow> f st c)) (wssClients st)
      in (if list_ex (raises st) targets then Threw else Returned,
          post st (until_raise st targets) m))"
proof -
  let ?Q = "\<lambda>s c. readyState (socks s c) = OPEN \<and> (case flt of None \<Rightarrow> True | Some f \<Rightarrow> f s c)"
  have "(\<lambda>s client.
          if readyState (socks s client) = OPEN
          then (if (case flt of None \<Rightarrow> True | Some f \<Rightarrow> f s client)
                then ws_send s client m else (Returned, s))
          else (Returned, s)) = deliver ?Q m"
    by (simp add: deliver_def fun_eq_iff)
  moreover have "?Q (s\<lparr>sent := l\<rparr>) = ?Q s" for s l
  proof (cases flt)
    case None
    then show ?thesis by simp
  next
    case (Some f)
    then have "f (s\<lparr>sent := l\<rparr>) = f s" using assms by blast
    then show ?thesis using Some by simp
  qed
  ultimately show ?thesis
    by (simp add: broadcast_def forEach_deliver [of ?Q] Let_def)
qed

lemma sendToClient_deliver:
  "sendToClient st c m =
     (if readyState (socks st c) = OPEN
      then (if raises st c then (Threw, st) else (Returned, post st [c] m))
      else (Returned, st))"
  by (simp add: sendToClient_def ws_send_post)

lemma sendNotification_deliver:
  "sendNotification st u n nid now =
     (case userSockets st u of
        None \<Rightarrow> (Returned, st)
      | Some cs \<Rightarrow>
          (if list_ex (raises st) (receivers st cs None) then Threw else Returned,
           post st (until_raise st (receivers st cs None)) (NOTIFICATION n nid now)))"
proof (cases "userSockets st u")
  case None
  then show ?thesis by (simp add: sendNotification_def)
next
  case (Some cs)
  have "(\<lambda>s c. sendToClient s c (NOTIFICATION n nid now)) =
        deliver (\<lambda>s c. readyState (socks s c) = OPEN) (NOTIFICATION n nid now)"
    by (simp add: deliver_def sendToClient_def fun_eq_iff)
  then show ?thesis using Some
    by (simp add: sendNotification_def forEach_deliver receivers_def)
qed

lemma count_list_distinct:
  "distinct xs \<Longrightarrow> count_list xs x = (if x \<in> set xs then 1 else 0)"
  by (induction xs) auto

lemma receivers_set:
  "c \<in> set (receivers st ms ex) \<longleftrightarrow>
     c \<in> set ms \<and> readyState (socks st c) = OPEN \<and> Some c \<noteq> ex"
  by (auto simp: receivers_def)

lemma receivers_distinct: "distinct ms \<Longrightarrow> distinct (receivers st ms ex)"
  by (simp add: receivers_def)

lemma demo5_socks: "socks demo5 c = \<lparr>readyState = OPEN, isAlive = (c = 11 \<or> c = 12 \<or> c = 13), sendRaises = False\<rparr>"
  by (simp add: demo_defs run_defs)

lemma demo5_quiet: "raises demo5 c = False"
  by (simp add: raises_def demo5_socks)

lemma tracks_stable: "tracks p (s\<lparr>sent := l\<rparr>) = tracks p s"
  by (simp add: tracks_def fun_eq_iff)

lemma reachable_faulty: "reachable faulty"
  unfolding faulty_def
  by (rule reachable.step [OF reachable_demo3]) simp

lemma faulty_wssClients: "wssClients faulty = [11, 12, 13]"
  by (simp add: faulty_def)

lemma faulty_socks:
  "socks faulty c = \<lparr>readyState = OPEN, isAlive = (c = 11 \<or> c = 12 \<or> c = 13), sendRaises = (c = 11)\<rparr>"
  by (simp add: faulty_def faultyTransport_def demo_defs run_defs)

lemma demo3_socks: "socks demo3 c = \<lparr>readyState = OPEN, isAlive = (c = 11 \<or> c = 12 \<or> c = 13), sendRaises = False\<rparr>"
  by (simp add: demo_defs run_defs)

lemma demo3_rooms: "rooms demo3 = Map.empty"
  by (simp add: demo_defs run_defs)

lemma demo3_client11: "clients demo3 11 =
   Some \<lparr>clientId = ''client_11'', userId = Some 7, connectedAt = 10, lastActivity = 10,
         clientRooms = [], trackedProducts = []\<rparr>"
  by (simp add: demo_defs run_defs)

lemma demo5_client11: "clients demo5 11 =
   Some \<lparr>clientId = ''client_11'', userId = Some 7, connectedAt = 10, lastActivity = 10,
         clientRooms = [''jazz''], trackedProducts = []\<rparr>"
  by (simp add: demo_defs run_defs)

lemma demo5_client13: "clients demo5 13 =
   Some \<lparr>clientId = ''client_13'', userId = None, connectedAt = 30, lastActivity = 30,
         clientRooms = [], trackedProducts = []\<rparr>"
  by (simp add: demo_defs run_defs)

lemma reachable_faulty5: "reachable faulty5"
  unfolding faulty5_def
  by (rule reachable.step [OF reachable_demo5]) simp

lemma faulty5_wssClients: "wssClients faulty5 = [11, 12, 13]"
  by (simp add: faulty5_def)

lemma faulty5_socks:
  "socks faulty5 c = \<lparr>readyState = OPEN, isAlive = (c = 11 \<or> c = 12 \<or> c = 13), sendRaises = (c = 11)\<rparr>"
  by (simp add: faulty5_def faultyTransport_def demo_defs run_defs)

lemma faulty5_raises: "raises faulty5 c = (c = 11)"
  by (simp add: raises_def faulty5_socks)

lemma faulty5_rooms: "rooms faulty5 = [''jazz'' \<mapsto> [11, 12]]"
  by (simp add: faulty5_def demo5_rooms)

lemma faulty5_userSockets: "userSockets faulty5 = [7 \<mapsto> [11, 12]]"
  by (simp add: faulty5_def demo5_userSockets)

lemma faulty5_client11: "clients faulty5 11 =
   Some \<lparr>clientId = ''client_11'', userId = Some 7, connectedAt = 10, lastActivity = 10,
         clientRooms = [''jazz''], trackedProducts = []\<rparr>"
  by (simp add: faulty5_def demo5_client11)

lemma faulty5_client13: "clients faulty5 13 =
   Some \<lparr>clientId = ''client_13'', userId = None, connectedAt = 30, lastActivity = 30,
         clientRooms = [], trackedProducts = []\<rparr>"
  by (simp add: faulty5_def demo5_client13)

lemma faulty5_sent: "sent faulty5 = sent demo5"
  by (simp add: faulty5_def)

lemma faulty5_logged: "logged faulty5 = logged demo5"
  by (simp add: faulty5_def)

lemma reachable_closing5: "reachable closing5"
  unfolding closing5_def
  by (rule reachable.step [OF reachable_demo5]) simp

lemma closing5_socks:
  "socks closing5 c = \<lparr>readyState = (if c = 11 then CLOSING else OPEN),
      isAlive = (c = 11 \<or> c = 12 \<or> c = 13), sendRaises = False\<rparr>"
  by (simp add: closing5_def closingTransport_def demo_defs run_defs)

lemma closing5_quiet: "raises closing5 c = False"
  by (simp add: raises_def closing5_socks)

lemma closing5_rooms: "rooms closing5 = [''jazz'' \<mapsto> [11, 12]]"
  by (simp add: closing5_def demo5_rooms)

lemma demo5_client12: "clients demo5 12 =
   Some \<lparr>clientId = ''client_12'', userId = Some 7, connectedAt = 20, lastActivity = 20,
         clientRooms = [''jazz''], trackedProducts = []\<rparr>"
  by (simp add: demo_defs run_defs)

lemma closing5_client12: "clients closing5 12 =
   Some \<lparr>clientId = ''client_12'', userId = Some 7, connectedAt = 20, lastActivity = 20,
         clientRooms = [''jazz''], trackedProducts = []\<rparr>"
  by (simp add: closing5_def demo5_client12)

subsection \<open>Operations that leave the heartbeat data alone\<close>

lemma hb_same_refl [simp]: "hb_same st st"
  by (simp add: hb_same_def)

lemma hb_same_trans: "hb_same a b \<Longrightarrow> hb_same b c \<Longrightarrow> hb_same a c"
  by (simp add: hb_same_def)

lemma forEach_rel:
  assumes r: "\<And>s. R s s" and t: "\<And>a b c. R a b \<Longrightarrow> R b c \<Longrightarrow> R a c"
    and f: "\<And>s x. R s (snd (f s x))"
  shows "R st (snd (forEach xs f st))"
proof (induction xs arbitrary: st)
  case Nil
  show ?case by (simp add: r)
next
  case (Cons x xs)
  obtain oc s1 where fx: "f st x = (oc, s1)" by (cases "f st x")
  have a: "R st s1" using f [of st x] by (simp add: fx)
  show ?case
  proof (cases oc)
    case Returned
    then show ?thesis using fx t [OF a Cons.IH [of s1]] by simp
  next
    case Threw
    then show ?thesis using fx a by simp
  qed
qed


lemma ws_send_hb: "hb_same st (snd (ws_send st c m))"
  by (simp add: ws_send_def hb_same_def)



lemma broadcastToRoom_hb: "hb_same st (snd (broadcastToRoom st r m ex))"
proof (cases "rooms st r")
  case None
  then show ?thesis by (simp add: broadcastToRoom_def)
next
  case (Some ms)
  have "hb_same st (snd (forEach ms (\<lambda>s client.
               if readyState (socks s client) = OPEN \<and> Some client \<noteq> ex
               then ws_send s client m else (Returned, s)) st))"
    by (rule forEach_rel [where R = hb_same]) (auto intro: hb_same_trans simp: ws_send_hb)
  then show ?thesis using Some by (simp add: broadcastToRoom_def)
qed




lemma broadcastToRoom_hb': "hb_same st s \<Longrightarrow> hb_same st (snd (broadcastToRoom s r m ex))"
  by (erule hb_same_trans) (rule broadcastToRoom_hb)













subsection \<open>The sweep and runs of operations\<close>


















lemma sweep_times_Nil [simp]: "sweep_times [] = []"
  by (simp add: sweep_times_def)












subsection \<open>Evaluating the binary64 arithmetic\<close>

lemma pow2_pos [simp]: "0 < pow2 e"
  by (simp add: pow2_def)

lemma pow2_powr: "pow2 e = 2 powr (of_int e)"
proof (cases "0 \<le> e")
  case True
  then have "2 powr (of_int e) = (2::real) ^ nat e"
    by (metis powr_realpow of_nat_nat zero_less_numeral of_int_of_nat_eq)
  then show ?thesis using True by (simp add: pow2_def)
next
  case False
  then have "2 powr (of_int e) = 1 / (2::real) powr (of_int (- e))"
    by (simp add: powr_minus_divide)
  also have "(2::real) powr (of_int (- e)) = 2 ^ nat (- e)"
    using False by (metis powr_realpow of_nat_nat zero_less_numeral of_int_of_nat_eq
        neg_0_le_iff_le linear)
  finally show ?thesis using False by (simp add: pow2_def)
qed

lemma exponent_eq:
  assumes "pow2 e \<le> \<bar>x\<bar>" "\<bar>x\<bar> < pow2 (e + 1)" "- 1022 \<le> e"
  shows "exponent x = e"
proof -
  have pos: "0 < \<bar>x\<bar>" using assms(1) pow2_pos [of e] by linarith
  have "\<lfloor>log 2 \<bar>x\<bar>\<rfloor> = e"
    using assms(1,2) pos by (simp add: floor_log_eq_powr_iff pow2_powr)
  then show ?thesis using assms(3) by (simp add: exponent_def)
qed

lemma roundHalfEven_int [simp]: "roundHalfEven (of_int n) = n"
  by (simp add: roundHalfEven_def)

lemma roundHalfEven_near:
  assumes "of_int n - 1 / 2 < q" "q < of_int n + 1 / 2"
  shows "roundHalfEven q = n"
proof -
  have "\<lfloor>q\<rfloor> = n \<or> \<lfloor>q\<rfloor> = n - 1" using assms by linarith
  then show ?thesis
  proof
    assume f: "\<lfloor>q\<rfloor> = n"
    then have "q - of_int \<lfloor>q\<rfloor> < 1 / 2" using assms by simp
    then show ?thesis using f by (simp add: roundHalfEven_def Let_def)
  next
    assume f: "\<lfloor>q\<rfloor> = n - 1"
    then have "1 / 2 < q - of_int \<lfloor>q\<rfloor>" using assms by simp
    then show ?thesis using f by (simp add: roundHalfEven_def Let_def)
  qed
qed

lemma roundHalfEven_nonneg: "0 \<le> q \<Longrightarrow> 0 \<le> roundHalfEven q"
proof -
  assume "0 \<le> q"
  then have "0 \<le> \<lfloor>q\<rfloor>" by simp
  then show ?thesis by (auto simp: roundHalfEven_def Let_def)
qed

lemma fl_at:
  assumes "pow2 e \<le> \<bar>x\<bar>" "\<bar>x\<bar> < pow2 (e + 1)" "- 1022 \<le> e"
  shows "fl x =
     (let y = of_int (roundHalfEven (x / pow2 (e - 52))) * pow2 (e - 52)
      in if 2 ^ 1024 \<le> y then Infinity
         else if y \<le> - (2 ^ 1024) then NegInfinity
         else Num y)"
proof -
  have "0 < \<bar>x\<bar>" using assms(1) pow2_pos [of e] by linarith
  then have "x \<noteq> 0" by auto
  then show ?thesis by (simp add: fl_def exponent_eq [OF assms] Let_def)
qed

lemma fl_value:
  assumes "pow2 e \<le> \<bar>x\<bar>" "\<bar>x\<bar> < pow2 (e + 1)" "- 1022 \<le> e"
    and "of_int n - 1 / 2 < x / pow2 (e - 52)" "x / pow2 (e - 52) < of_int n + 1 / 2"
    and "\<bar>of_int n * pow2 (e - 52)\<bar> < 2 ^ 1024"
  shows "fl x = Num (of_int n * pow2 (e - 52))"
proof -
  have r: "roundHalfEven (x / pow2 (e - 52)) = n"
    using assms(4,5) by (rule roundHalfEven_near)
  have "\<not> 2 ^ 1024 \<le> of_int n * pow2 (e - 52)" "\<not> of_int n * pow2 (e - 52) \<le> - (2 ^ 1024)"
    using assms(6) by linarith+
  then show ?thesis
    unfolding fl_at [OF assms(1-3)] r Let_def by simp
qed

lemma fl_nonneg: "0 \<le> x \<Longrightarrow> nonneg (fl x)"
proof -
  assume x: "0 \<le> x"
  let ?u = "pow2 (exponent x - 52)"
  have "0 \<le> x / ?u" by (intro divide_nonneg_pos x pow2_pos)
  then have "0 \<le> roundHalfEven (x / ?u)" by (rule roundHalfEven_nonneg)
  then have y: "0 \<le> of_int (roundHalfEven (x / ?u)) * ?u"
    by (intro mult_nonneg_nonneg) (simp_all add: less_imp_le)
  have "\<not> of_int (roundHalfEven (x / ?u)) * ?u \<le> - (2 ^ 1024)"
  proof
    assume "of_int (roundHalfEven (x / ?u)) * ?u \<le> - (2 ^ 1024)"
    moreover have "(0::real) < 2 ^ 1024" by simp
    ultimately show False using y by linarith
  qed
  then show ?thesis using y by (simp add: fl_def Let_def)
qed

lemma js_div_nonneg: "nonneg a \<Longrightarrow> 0 < d \<Longrightarrow> nonneg (js_div a d)"
  by (cases a) (simp_all add: fl_nonneg)

lemma js_mul_nonneg: "nonneg a \<Longrightarrow> 0 < k \<Longrightarrow> nonneg (js_mul a k)"
  by (cases a) (simp_all add: fl_nonneg)

lemma Math_round_nonneg: "nonneg a \<Longrightarrow> nonneg (Math_round a)"
proof (cases a)
  case (Num x)
  assume "nonneg a"
  then have "0 \<le> x" using Num by simp
  then have "0 \<le> \<lfloor>x + 1 / 2\<rfloor>" by linarith
  then show ?thesis using Num by simp
qed simp_all

lemma discount_nonneg: "0 < oldPrice \<Longrightarrow> nonneg (discount newPrice oldPrice)"
proof (cases "oldPrice > newPrice")
  case False
  then show ?thesis by (simp add: discount_def)
next
  case True
  assume "0 < oldPrice"
  then show ?thesis using True
    by (simp add: discount_def Math_round_nonneg js_mul_nonneg js_div_nonneg fl_nonneg)
qed

lemma fl_10: "fl 10 = Num 10"
  using fl_value [of 3 10 "10 * 2 ^ 49"] by (simp add: pow2_def)

lemma fl_25: "fl 25 = Num 25"
  using fl_value [of 4 25 "25 * 2 ^ 48"] by (simp add: pow2_def)

lemma fl_29: "fl 29 = Num 29"
  using fl_value [of 4 29 "29 * 2 ^ 48"] by (simp add: pow2_def)

lemma fl_5: "fl 5 = Num 5"
  using fl_value [of 2 5 "5 * 2 ^ 50"] by (simp add: pow2_def)

lemma fl_quarter: "fl (1 / 4) = Num (1 / 4)"
  using fl_value [of "- 2" "1 / 4" "2 ^ 52"] by (simp add: pow2_def)

lemma fl_29_200: "fl (29 / 200) = Num (5224175567749775 / 2 ^ 55)"
  using fl_value [of "- 3" "29 / 200" 5224175567749775] by (simp add: pow2_def)

lemma fl_29_200_100: "fl (5224175567749775 / 2 ^ 55 * 100) = Num (8162774324609023 / 2 ^ 49)"
  using fl_value [of 3 "5224175567749775 / 2 ^ 55 * 100" 8162774324609023]
  by (simp add: pow2_def)

lemma fl_minus_fifth: "fl (- (1 / 5)) = Num (- (7205759403792794 / 2 ^ 55))"
  using fl_value [of "- 3" "- (1 / 5)" "- 7205759403792794"] by (simp add: pow2_def)

lemma fl_minus_fifth_100: "fl (- (7205759403792794 / 2 ^ 55) * 100) = Num (- 20)"
  using fl_value [of 4 "- (7205759403792794 / 2 ^ 55) * 100" "- 5629499534213120"]
  by (simp add: pow2_def)

lemma discount_75_100: "discount 75 100 = Num 25"
  by (simp add: discount_def fl_25 fl_quarter)

lemma discount_60_50: "discount 60 50 = Num 0"
  by (simp add: discount_def)

lemma floor_14: "\<lfloor>(8162774324609023 / 2 ^ 49 + 1 / 2 :: real)\<rfloor> = 14"
proof -
  have "(14::real) \<le> 8162774324609023 / 2 ^ 49 + 1 / 2" by simp
  moreover have "(8162774324609023 / 2 ^ 49 + 1 / 2 :: real) < 15" by simp
  ultimately show ?thesis by linarith
qed

lemma discount_171_200: "discount 171 200 = Num 14"
  using fl_29 fl_29_200 fl_29_200_100 floor_14 by (simp add: discount_def)

lemma discount_neg: "discount (- 60) (- 50) = Num (- 20)"
  using fl_10 fl_minus_fifth fl_minus_fifth_100 by (simp add: discount_def)

lemma discount_zero_old: "discount (- 5) 0 = Infinity"
  by (simp add: discount_def fl_5)

lemma exact_171_200: "round (((200 - 171) / 200) * 100 :: real) = 15"
  by (simp add: round_def)

text \<open>The error of one rounding, and of the three roundings of the discount.\<close>

lemma pow2_nz [simp]: "pow2 e \<noteq> 0"
  using pow2_pos [of e] by linarith

lemma pow2_diff52: "pow2 (e - 52) = pow2 e / 2 ^ 52"
proof -
  have "pow2 (e - 52) = 2 powr (of_int e - 52)" by (simp add: pow2_powr)
  also have "\<dots> = 2 powr (of_int e) / 2 powr 52" by (rule powr_diff)
  also have "(2::real) powr 52 = 2 ^ 52" by simp
  finally show ?thesis by (simp add: pow2_powr)
qed

lemma roundHalfEven_err: "\<bar>of_int (roundHalfEven q) - q\<bar> \<le> 1 / 2"
proof -
  have "of_int \<lfloor>q\<rfloor> \<le> q" "q < of_int \<lfloor>q\<rfloor> + 1" by linarith+
  then show ?thesis by (auto simp: roundHalfEven_def Let_def)
qed

lemma exponent_normal:
  assumes "1 / 2 ^ 1022 \<le> \<bar>x\<bar>"
  shows "pow2 (exponent x) \<le> \<bar>x\<bar>"
proof -
  have pos: "0 < \<bar>x\<bar>" using assms by (smt (verit) divide_pos_pos zero_less_power zero_less_numeral zero_less_one)
  have "(2::real) powr (- 1022) = 1 / 2 ^ 1022"
    using pow2_powr [of "- 1022"] by (simp add: pow2_def)
  then have "2 powr (- 1022) \<le> \<bar>x\<bar>" using assms by simp
  then have "- 1022 \<le> log 2 \<bar>x\<bar>" using pos by (simp add: le_log_iff)
  then have "- 1022 \<le> \<lfloor>log 2 \<bar>x\<bar>\<rfloor>" by (simp add: le_floor_iff)
  then have e: "exponent x = \<lfloor>log 2 \<bar>x\<bar>\<rfloor>" by (simp add: exponent_def)
  have "2 powr (of_int \<lfloor>log 2 \<bar>x\<bar>\<rfloor>) \<le> \<bar>x\<bar>"
    using floor_log_eq_powr_iff [of "\<bar>x\<bar>" 2 "\<lfloor>log 2 \<bar>x\<bar>\<rfloor>"] pos by simp
  then show ?thesis by (simp add: e pow2_powr)
qed

lemma fl_err_normal:
  assumes "1 / 2 ^ 1022 \<le> \<bar>x\<bar>" and "\<bar>x\<bar> < 2 ^ 1023"
  shows "\<exists>y. fl x = Num y \<and> \<bar>y - x\<bar> \<le> \<bar>x\<bar> / 2 ^ 53"
proof -
  let ?u = "pow2 (exponent x - 52)"
  let ?y = "of_int (roundHalfEven (x / ?u)) * ?u"
  have u: "0 < ?u" by simp
  have "\<bar>?y - x\<bar> = \<bar>of_int (roundHalfEven (x / ?u)) - x / ?u\<bar> * ?u"
  proof -
    have "?y - x = (of_int (roundHalfEven (x / ?u)) - x / ?u) * ?u"
      by (simp add: left_diff_distrib)
    then have "\<bar>?y - x\<bar> = \<bar>of_int (roundHalfEven (x / ?u)) - x / ?u\<bar> * \<bar>?u\<bar>"
      by (simp only: abs_mult)
    then show ?thesis using u by (simp only: abs_of_pos)
  qed
  also have "\<dots> \<le> 1 / 2 * ?u"
    by (intro mult_right_mono roundHalfEven_err) (simp add: less_imp_le)
  also have "\<dots> = pow2 (exponent x) / 2 ^ 53" by (simp add: pow2_diff52)
  also have "\<dots> \<le> \<bar>x\<bar> / 2 ^ 53"
    using exponent_normal [OF assms(1)] by (simp add: divide_right_mono)
  finally have err: "\<bar>?y - x\<bar> \<le> \<bar>x\<bar> / 2 ^ 53" .
  have "\<bar>x\<bar> / 2 ^ 53 \<le> \<bar>x\<bar>" by (simp add: field_simps)
  then have "\<bar>?y\<bar> \<le> 2 * \<bar>x\<bar>" using err by linarith
  also have "\<dots> < 2 * 2 ^ 1023" using assms(2) by linarith
  finally have "\<bar>?y\<bar> < 2 ^ 1024" by simp
  then have b: "\<not> 2 ^ 1024 \<le> ?y" "\<not> ?y \<le> - (2 ^ 1024)" by linarith+
  have "x \<noteq> 0" using assms(1) by auto
  then have "fl x = Num ?y" using b by (simp add: fl_def Let_def)
  then show ?thesis using err by blast
qed

lemma exponent_small:
  assumes "\<bar>x\<bar> < 1 / 2 ^ 1022" and "x \<noteq> 0"
  shows "exponent x = - 1022"
proof -
  have pos: "0 < \<bar>x\<bar>" using assms(2) by simp
  have "(2::real) powr (- 1022) = 1 / 2 ^ 1022"
    using pow2_powr [of "- 1022"] by (simp add: pow2_def)
  then have "\<bar>x\<bar> < 2 powr (- 1022)" using assms(1) by simp
  then have "log 2 \<bar>x\<bar> < - 1022" using pos by (simp add: log_less_iff)
  then have "\<lfloor>log 2 \<bar>x\<bar>\<rfloor> \<le> - 1022" by linarith
  then show ?thesis by (simp add: exponent_def)
qed

lemma fl_err_small:
  assumes "\<bar>x\<bar> < 1 / 2 ^ 1022"
  shows "\<exists>y. fl x = Num y \<and> \<bar>y - x\<bar> \<le> 1 / 2 ^ 1075"
proof (cases "x = 0")
  case True
  then show ?thesis by (simp add: fl_def)
next
  case False
  let ?u = "pow2 (- 1022 - 52)"
  let ?y = "of_int (roundHalfEven (x / ?u)) * ?u"
  have u: "0 < ?u" by simp
  have uv: "?u = 1 / 2 ^ 1074" by (simp add: pow2_def)
  have "\<bar>?y - x\<bar> = \<bar>of_int (roundHalfEven (x / ?u)) - x / ?u\<bar> * ?u"
  proof -
    have "?y - x = (of_int (roundHalfEven (x / ?u)) - x / ?u) * ?u"
      by (simp add: left_diff_distrib)
    then have "\<bar>?y - x\<bar> = \<bar>of_int (roundHalfEven (x / ?u)) - x / ?u\<bar> * \<bar>?u\<bar>"
      by (simp only: abs_mult)
    then show ?thesis using u by (simp only: abs_of_pos)
  qed
  also have "\<dots> \<le> 1 / 2 * ?u"
    by (intro mult_right_mono roundHalfEven_err) (simp add: less_imp_le)
  also have "\<dots> = 1 / 2 ^ 1075" unfolding uv by simp
  finally have err: "\<bar>?y - x\<bar> \<le> 1 / 2 ^ 1075" .
  have "(1::real) / 2 ^ 1075 \<le> 1" "(1::real) / 2 ^ 1022 \<le> 1" by simp_all
  then have "\<bar>?y\<bar> \<le> 2" using err assms by linarith
  moreover have "(2::real) < 2 ^ 1024" by simp
  ultimately have b: "\<not> 2 ^ 1024 \<le> ?y" "\<not> ?y \<le> - (2 ^ 1024)" by linarith+
  have "fl x = Num ?y"
    using False b by (simp add: fl_def Let_def exponent_small [OF assms False])
  then show ?thesis using err by blast
qed

lemma fl_err:
  assumes "\<bar>x\<bar> < 2 ^ 1023"
  shows "\<exists>y. fl x = Num y \<and> \<bar>y - x\<bar> \<le> \<bar>x\<bar> / 2 ^ 53 + 1 / 2 ^ 1075"
proof (cases "1 / 2 ^ 1022 \<le> \<bar>x\<bar>")
  case True
  then obtain y where "fl x = Num y" "\<bar>y - x\<bar> \<le> \<bar>x\<bar> / 2 ^ 53"
    using fl_err_normal [OF True assms] by blast
  moreover have "(0::real) \<le> 1 / 2 ^ 1075" by simp
  ultimately show ?thesis by (intro exI [of _ y]) linarith
next
  case False
  then have "\<bar>x\<bar> < 1 / 2 ^ 1022" by simp
  then obtain y where "fl x = Num y" "\<bar>y - x\<bar> \<le> 1 / 2 ^ 1075"
    using fl_err_small by blast
  moreover have "0 \<le> \<bar>x\<bar> / 2 ^ 53" by simp
  ultimately show ?thesis by (intro exI [of _ y]) linarith
qed

lemma discount_close:
  assumes "0 \<le> newPrice" and "newPrice < oldPrice"
    and "1 / 2 ^ 1022 \<le> oldPrice - newPrice" and "oldPrice < 2 ^ 1023"
  shows "\<exists>n. discount newPrice oldPrice = Num (of_int n) \<and>
              \<bar>of_int n - (oldPrice - newPrice) / oldPrice * 100\<bar> \<le> 1 / 2 + 1 / 10 ^ 13"
proof -
  define d where "d = oldPrice - newPrice"
  define t where "t = d / oldPrice"
  define eps :: real where "eps = 1 / 2 ^ 53"
  define eta :: real where "eta = 1 / 2 ^ 1075"
  have old: "0 < oldPrice" using assms(1,2) by linarith
  have dpos: "0 < d" using assms(2) by (simp add: d_def)
  have dle: "d \<le> oldPrice" using assms(1) by (simp add: d_def)
  have t: "0 < t" "t \<le> 1" using dpos dle old by (simp_all add: t_def)
  have eps: "0 \<le> eps" "eps \<le> 3 / 25000000000000000" by (simp_all add: eps_def)
  have eta: "0 \<le> eta" "eta \<le> 1 / 1000000000000000000"
  proof -
    show "0 \<le> eta" by (simp add: eta_def)
    have "(1000000000000000000::real) \<le> 2 ^ 1075" by simp
    then show "eta \<le> 1 / 1000000000000000000" unfolding eta_def
      by (intro divide_left_mono) simp_all
  qed
  \<comment> \<open>the subtraction\<close>
  have "\<bar>d\<bar> < 2 ^ 1023" "1 / 2 ^ 1022 \<le> \<bar>d\<bar>"
    using dpos dle assms(3,4) by (simp_all add: d_def)
  then obtain a where a: "fl d = Num a" "\<bar>a - d\<bar> \<le> \<bar>d\<bar> / 2 ^ 53"
    using fl_err_normal [of d] by blast
  have a_err: "\<bar>a - d\<bar> \<le> d * eps" using a(2) dpos by (simp add: eps_def)
  \<comment> \<open>the division\<close>
  have x2: "\<bar>a / oldPrice - t\<bar> \<le> t * eps"
  proof -
    have "a / oldPrice - t = (a - d) / oldPrice" by (simp add: t_def diff_divide_distrib)
    then have "\<bar>a / oldPrice - t\<bar> = \<bar>a - d\<bar> / oldPrice" using old by (simp add: abs_divide)
    also have "\<dots> \<le> d * eps / oldPrice" using a_err old by (simp add: divide_right_mono)
    finally show ?thesis by (simp add: t_def)
  qed
  have "t * eps \<le> 1 * eps" using t(2) eps(1) by (intro mult_right_mono)
  then have x2': "\<bar>a / oldPrice - t\<bar> \<le> eps" using x2 by simp
  then have x2b: "\<bar>a / oldPrice\<bar> \<le> 2" using t eps by linarith
  moreover have "(2::real) < 2 ^ 1023" by simp
  ultimately have "\<bar>a / oldPrice\<bar> < 2 ^ 1023" by linarith
  then obtain q where q: "fl (a / oldPrice) = Num q"
      "\<bar>q - a / oldPrice\<bar> \<le> \<bar>a / oldPrice\<bar> / 2 ^ 53 + 1 / 2 ^ 1075"
    using fl_err [of "a / oldPrice"] by blast
  have "\<bar>a / oldPrice\<bar> * eps \<le> 2 * eps" using x2b eps(1) by (intro mult_right_mono)
  then have q_err: "\<bar>q - a / oldPrice\<bar> \<le> 2 * eps + eta"
    using q(2) by (simp add: eps_def eta_def)
  have qt: "\<bar>q - t\<bar> \<le> 3 * eps + eta" using q_err x2' by linarith
  \<comment> \<open>the multiplication\<close>
  have qb: "\<bar>q\<bar> \<le> 2" using qt t eps eta by linarith
  then have x3b: "\<bar>q * 100\<bar> \<le> 200" by (simp add: abs_mult)
  moreover have "(200::real) < 2 ^ 1023" by simp
  ultimately have "\<bar>q * 100\<bar> < 2 ^ 1023" by linarith
  then obtain r where r: "fl (q * 100) = Num r"
      "\<bar>r - q * 100\<bar> \<le> \<bar>q * 100\<bar> / 2 ^ 53 + 1 / 2 ^ 1075"
    using fl_err [of "q * 100"] by blast
  have "\<bar>q * 100\<bar> * eps \<le> 200 * eps" using x3b eps(1) by (intro mult_right_mono)
  then have r_err: "\<bar>r - q * 100\<bar> \<le> 200 * eps + eta"
    using r(2) by (simp add: eps_def eta_def)
  have "\<bar>q * 100 - t * 100\<bar> \<le> 300 * eps + 100 * eta" using qt by linarith
  then have rt: "\<bar>r - t * 100\<bar> \<le> 1 / 10000000000000" using r_err eps eta by linarith
  \<comment> \<open>the rounding to an integer\<close>
  let ?n = "\<lfloor>r + 1 / 2\<rfloor>"
  have "\<bar>of_int ?n - r\<bar> \<le> 1 / 2" by linarith
  then have "\<bar>of_int ?n - t * 100\<bar> \<le> 1 / 2 + 1 / 10000000000000" using rt by linarith
  then have close: "\<bar>of_int ?n - t * 100\<bar> \<le> 1 / 2 + 1 / 10 ^ 13" by simp
  have "discount newPrice oldPrice = Num (of_int ?n)"
    using assms(2) old a(1) q(1) r(1) by (simp add: discount_def d_def)
  then show ?thesis using close by (auto simp: t_def d_def)
qed

section \<open>The claims\<close>

subsection \<open>C1: the cross-index invariant\<close>

text \<open>
  C1. In every state the registry can reach from its constructor, and after any further
  operation on such a state (connection accept, join-room, leave-room, track and untrack,
  an inbound frame, close or error cleanup, and the other methods), every room in the
  room index has at least one member and every connection in a user's set of the
  user-connection index is a key of the primary connection map. An operation is enabled
  when it can happen: a connection is accepted on a socket that is not a key of the
  connection map yet, and the transport keeps \<open>wss.clients\<close> a set. And when connection \<open>a\<close>
  is the only member of room \<open>r\<close> after \<open>joinRoom(a, r)\<close>, room \<open>r\<close> is absent from the room
  index after the following \<open>leaveRoom(a, r)\<close>.
\<close>

theorem cross_index_invariant:
  assumes "reachable st" and "enabled st x"
  shows "rooms_nonempty st \<and> user_index_live st \<and>
         rooms_nonempty (snd (exec st x)) \<and> user_index_live (snd (exec st x)) \<and>
         (rooms (snd (joinRoom st a r t)) r = Some [a] \<longrightarrow>
            rooms (snd (leaveRoom (snd (joinRoom st a r t)) a r t')) r = None)"
proof -
  have ok: "index_ok st" using assms(1) by (rule reachable_ok)
  have ok': "index_ok (snd (exec st x))" using ok assms(2) by (rule exec_ok)
  show ?thesis
    using index_ok_cross [OF ok] index_ok_cross [OF ok'] join_then_leave [OF ok]
    by blast
qed

theorem cross_index_invariant_witness:
  "reachable demo3 \<and> enabled demo3 (Close 11 60) \<and>
   rooms_nonempty (snd (exec demo3 (Close 11 60))) \<and>
   user_index_live (snd (exec demo3 (Close 11 60))) \<and>
   rooms (snd (joinRoom demo3 11 ''jazz'' 40)) ''jazz'' = Some [11] \<and>
   rooms (snd (leaveRoom (snd (joinRoom demo3 11 ''jazz'' 40)) 11 ''jazz'' 45)) ''jazz'' = None"
proof -
  have j: "rooms (snd (joinRoom demo3 11 ''jazz'' 40)) ''jazz'' = Some [11]"
    by (simp add: demo_defs run_defs)
  have e: "enabled demo3 (Close 11 60)" by simp
  show ?thesis
    using cross_index_invariant [OF reachable_demo3 e, of 11 "''jazz''" 40 45] j reachable_demo3
    by simp
qed

subsection \<open>C2: cleanup of a connection that is already removed\<close>

text \<open>
  C2. \<open>removeClient\<close> on a connection that is not in the primary connection map returns
  normally and changes nothing: not the connection map, the room index or the
  user-connection index, nor anything else in the state. In particular, after a call of
  \<open>removeClient\<close> that returned, a second call for the same connection leaves the state
  as the first call left it, so no member list is shortened twice.
\<close>

theorem removeClient_idempotent:
  "(clients st c = None \<longrightarrow> removeClient st c now = (Returned, st)) \<and>
   (removeClient st c now = (Returned, st') \<longrightarrow>
      clients st' c = None \<and> removeClient st' c now' = (Returned, st'))"
proof -
  have a: "removeClient s c t = (Returned, s)" if "clients s c = None" for s t
    using that by (simp add: removeClient_def)
  have b: "clients st' c = None" if r: "removeClient st c now = (Returned, st')"
  proof (cases "clients st c")
    case None
    then show ?thesis using r by (simp add: removeClient_def)
  next
    case (Some info)
    obtain oc s where loop: "forEach (clientRooms info) (removeFromRoom c info now) st = (oc, s)"
      by (cases "forEach (clientRooms info) (removeFromRoom c info now) st")
    show ?thesis using r Some loop
      by (cases oc) (auto simp: removeClient_def andThen_def Let_def)
  qed
  show ?thesis using a b by blast
qed

theorem removeClient_idempotent_witness:
  "fst (removeClient demo5 11 60) = Returned \<and>
   clients (snd (removeClient demo5 11 60)) 11 = None \<and>
   rooms (snd (removeClient demo5 11 60)) = [''jazz'' \<mapsto> [12]] \<and>
   removeClient (snd (removeClient demo5 11 60)) 11 61 = (Returned, snd (removeClient demo5 11 60))"
proof -
  have f: "fst (removeClient demo5 11 60) = Returned"
    by (simp add: demo_defs run_defs removeClient_def removeFromRoom_def)
  have r: "removeClient demo5 11 60 = (Returned, snd (removeClient demo5 11 60))"
    using f by (simp add: prod_eq_iff)
  have m: "rooms (snd (removeClient demo5 11 60)) = [''jazz'' \<mapsto> [12]]"
    by (simp add: demo_defs run_defs removeClient_def removeFromRoom_def)
  show ?thesis
    using removeClient_idempotent [of demo5 11 60 "snd (removeClient demo5 11 60)" 61] r m f
    by simp
qed

subsection \<open>C3: room broadcast\<close>

text \<open>
  C3. \<open>broadcastToRoom(r, msg, exclude)\<close> in a reachable state. When \<open>r\<close> is not in the room
  index the call returns without sending anything or changing the state. When \<open>r\<close> is in
  the room index with member set \<open>ms\<close>, the members that are open and are not the excluded
  connection (\<open>receivers st ms exclude\<close>, each of them once, in the order of the set) are
  sent to in turn, up to the first one on which the transport's \<open>send\<close> raises: the state
  changes only by one copy of the message in the send log for each of the connections of
  \<open>until_raise st (receivers st ms exclude)\<close>. The call raises exactly when \<open>send\<close> raises on
  one of the receivers; when it raises on none, every receiver has been sent to.
\<close>

theorem broadcastToRoom_delivery:
  assumes "reachable st"
  shows "(rooms st r = None \<longrightarrow> broadcastToRoom st r m ex = (Returned, st)) \<and>
         (\<forall>ms. rooms st r = Some ms \<longrightarrow>
            broadcastToRoom st r m ex =
              (if list_ex (raises st) (receivers st ms ex) then Threw else Returned,
               post st (until_raise st (receivers st ms ex)) m) \<and>
            (\<not> list_ex (raises st) (receivers st ms ex) \<longrightarrow>
               until_raise st (receivers st ms ex) = receivers st ms ex) \<and>
            (\<forall>c. count_list (receivers st ms ex) c =
               (if c \<in> set ms \<and> readyState (socks st c) = OPEN \<and> Some c \<noteq> ex
                then 1 else 0)))"
proof (intro conjI allI impI)
  assume "rooms st r = None"
  then show "broadcastToRoom st r m ex = (Returned, st)"
    by (simp add: broadcastToRoom_def)
next
  fix ms assume "rooms st r = Some ms"
  then show "broadcastToRoom st r m ex =
      (if list_ex (raises st) (receivers st ms ex) then Threw else Returned,
       post st (until_raise st (receivers st ms ex)) m)"
    by (simp add: broadcastToRoom_deliver)
next
  fix ms assume "\<not> list_ex (raises st) (receivers st ms ex)"
  then show "until_raise st (receivers st ms ex) = receivers st ms ex"
    by (rule until_raise_all)
next
  fix ms c assume a: "rooms st r = Some ms"
  have "distinct ms" using index_ok_roomD [OF reachable_ok [OF assms]] a by blast
  then show "count_list (receivers st ms ex) c =
      (if c \<in> set ms \<and> readyState (socks st c) = OPEN \<and> Some c \<noteq> ex then 1 else 0)"
    by (simp add: count_list_distinct receivers_distinct receivers_set)
qed

text \<open>
  In \<open>demo5\<close> no \<open>send\<close> raises: a message to \<open>jazz\<close> with connection 11 excluded goes to
  connection 12 only, and a message to the absent room \<open>blues\<close> changes nothing. In
  \<open>faulty5\<close> a message to \<open>jazz\<close> with connection 12 excluded raises at connection 11.
\<close>

theorem broadcastToRoom_delivery_witness:
  "reachable demo5 \<and> rooms demo5 ''jazz'' = Some [11, 12] \<and> rooms demo5 ''blues'' = None \<and>
   receivers demo5 [11, 12] (Some 11) = [12] \<and>
   broadcastToRoom demo5 ''jazz'' (PONG 60) (Some 11) = (Returned, post demo5 [12] (PONG 60)) \<and>
   broadcastToRoom demo5 ''blues'' (PONG 60) (Some 11) = (Returned, demo5) \<and>
   reachable faulty5 \<and> rooms faulty5 ''jazz'' = Some [11, 12] \<and>
   receivers faulty5 [11, 12] (Some 12) = [11] \<and>
   broadcastToRoom faulty5 ''jazz'' (PONG 60) (Some 12) = (Threw, faulty5)"
proof -
  have r: "rooms demo5 ''jazz'' = Some [11, 12]" "rooms demo5 ''blues'' = None"
    "rooms faulty5 ''jazz'' = Some [11, 12]"
    by (simp_all add: demo5_rooms faulty5_rooms)
  have v: "receivers demo5 [11, 12] (Some 11) = [12]" "receivers faulty5 [11, 12] (Some 12) = [11]"
    by (simp_all add: receivers_def demo5_socks faulty5_socks)
  have q: "\<not> list_ex (raises demo5) [12]" "list_ex (raises faulty5) [11]"
    "until_raise demo5 [12] = [12]" "until_raise faulty5 [11] = []"
    by (simp_all add: until_raise_def demo5_quiet faulty5_raises)
  show ?thesis
    using broadcastToRoom_delivery [OF reachable_demo5, of "''jazz''" "PONG 60" "Some 11"]
      broadcastToRoom_delivery [OF reachable_demo5, of "''blues''" "PONG 60" "Some 11"]
      broadcastToRoom_delivery [OF reachable_faulty5, of "''jazz''" "PONG 60" "Some 12"]
      r v q reachable_demo5 reachable_faulty5
    by simp
qed

text \<open>
  The sentence of C3 without the condition on \<open>send\<close> does not hold. In the reachable state
  \<open>faulty5\<close> the room \<open>jazz\<close> has the members 11 and 12, both open, and no connection is
  excluded; \<open>send\<close> raises on connection 11, the first of the set. The call raises and
  nothing is sent: connection 12, an open member that is not excluded, does not receive
  the message.
\<close>

theorem broadcastToRoom_raise_counterexample:
  "reachable faulty5 \<and> rooms faulty5 ''jazz'' = Some [11, 12] \<and>
   readyState (socks faulty5 11) = OPEN \<and> readyState (socks faulty5 12) = OPEN \<and>
   receivers faulty5 [11, 12] None = [11, 12] \<and>
   broadcastToRoom faulty5 ''jazz'' (PONG 60) None = (Threw, faulty5)"
  by (simp add: reachable_faulty5 faulty5_rooms faulty5_socks receivers_def
      broadcastToRoom_deliver faulty5_raises until_raise_def)

subsection \<open>C4: per-user notification\<close>

text \<open>
  C4. \<open>sendNotification(U, n)\<close> in a reachable state. When \<open>U\<close> has no entry in the
  user-connection index the call returns without sending anything or changing the state
  (the notification is dropped). When \<open>U\<close>'s entry holds the connections \<open>cs\<close>, the open
  ones (\<open>receivers st cs None\<close>, each of them once, in the order of the set) are sent the
  \<open>NOTIFICATION\<close> in turn, up to the first one on which the transport's \<open>send\<close> raises: the
  state changes only by one copy of the message in the send log for each of the
  connections of \<open>until_raise st (receivers st cs None)\<close>. The call raises exactly when
  \<open>send\<close> raises on one of the open connections; when it raises on none, every open
  connection of \<open>cs\<close> has been sent to. Every connection of \<open>cs\<close> is registered under \<open>U\<close>,
  so no other connection receives the message.
\<close>

theorem sendNotification_delivery:
  assumes "reachable st"
  shows "(userSockets st u = None \<longrightarrow> sendNotification st u n nid now = (Returned, st)) \<and>
         (\<forall>cs. userSockets st u = Some cs \<longrightarrow>
            sendNotification st u n nid now =
              (if list_ex (raises st) (receivers st cs None) then Threw else Returned,
               post st (until_raise st (receivers st cs None)) (NOTIFICATION n nid now)) \<and>
            (\<not> list_ex (raises st) (receivers st cs None) \<longrightarrow>
               until_raise st (receivers st cs None) = receivers st cs None) \<and>
            (\<forall>c. count_list (receivers st cs None) c =
               (if c \<in> set cs \<and> readyState (socks st c) = OPEN then 1 else 0)) \<and>
            (\<forall>c \<in> set cs. registered_as st c u))"
proof (intro conjI allI impI)
  assume "userSockets st u = None"
  then show "sendNotification st u n nid now = (Returned, st)"
    by (simp add: sendNotification_def)
next
  fix cs assume "userSockets st u = Some cs"
  then show "sendNotification st u n nid now =
      (if list_ex (raises st) (receivers st cs None) then Threw else Returned,
       post st (until_raise st (receivers st cs None)) (NOTIFICATION n nid now))"
    by (simp add: sendNotification_deliver)
next
  fix cs assume "\<not> list_ex (raises st) (receivers st cs None)"
  then show "until_raise st (receivers st cs None) = receivers st cs None"
    by (rule until_raise_all)
next
  fix cs c assume a: "userSockets st u = Some cs"
  have "distinct cs" using index_ok_userD [OF reachable_ok [OF assms]] a by blast
  then show "count_list (receivers st cs None) c =
      (if c \<in> set cs \<and> readyState (socks st c) = OPEN then 1 else 0)"
    by (simp add: count_list_distinct receivers_distinct receivers_set)
next
  fix cs assume a: "userSockets st u = Some cs"
  show "\<forall>c \<in> set cs. registered_as st c u"
    using index_ok_userD [OF reachable_ok [OF assms]] a by blast
qed

text \<open>
  In \<open>demo5\<close> no \<open>send\<close> raises: a notification for user 7 goes to the connections 11 and
  12, and one for user 9, who has no connection, changes nothing.
\<close>

theorem sendNotification_delivery_witness:
  "reachable demo5 \<and> userSockets demo5 7 = Some [11, 12] \<and> userSockets demo5 9 = None \<and>
   receivers demo5 [11, 12] None = [11, 12] \<and>
   sendNotification demo5 7 ''order'' ''notif_1'' 60 =
     (Returned, post demo5 [11, 12] (NOTIFICATION ''order'' ''notif_1'' 60)) \<and>
   registered_as demo5 11 7 \<and> registered_as demo5 12 7 \<and>
   sendNotification demo5 9 ''order'' ''notif_1'' 60 = (Returned, demo5)"
proof -
  have r: "userSockets demo5 7 = Some [11, 12]" "userSockets demo5 9 = None"
    by (simp_all add: demo5_userSockets)
  have v: "receivers demo5 [11, 12] None = [11, 12]"
    by (simp add: receivers_def demo5_socks)
  have q: "\<not> list_ex (raises demo5) [11, 12]" "until_raise demo5 [11, 12] = [11, 12]"
    by (simp_all add: until_raise_def demo5_quiet)
  show ?thesis
    using sendNotification_delivery [OF reachable_demo5, of 7 "''order''" "''notif_1''" 60]
      sendNotification_delivery [OF reachable_demo5, of 9 "''order''" "''notif_1''" 60]
      r v q reachable_demo5
    by simp
qed

text \<open>
  The sentence of C4 without the condition on \<open>send\<close> does not hold. In the reachable state
  \<open>faulty5\<close> user 7 has the connections 11 and 12, both open; \<open>send\<close> raises on connection
  11, the first of the set. The call raises and nothing is sent: the open connection 12
  of user 7 does not receive the notification.
\<close>

theorem sendNotification_raise_counterexample:
  "reachable faulty5 \<and> userSockets faulty5 7 = Some [11, 12] \<and>
   readyState (socks faulty5 11) = OPEN \<and> readyState (socks faulty5 12) = OPEN \<and>
   receivers faulty5 [11, 12] None = [11, 12] \<and>
   sendNotification faulty5 7 ''order'' ''notif_1'' 60 = (Threw, faulty5)"
  by (simp add: reachable_faulty5 faulty5_userSockets faulty5_socks receivers_def
      sendNotification_deliver faulty5_raises until_raise_def)

subsection \<open>C5: the liveness sweep\<close>



subsection \<open>C6: exceptions in the send primitives\<close>

text \<open>
  C6, as the code has it. None of \<open>sendToClient\<close>, \<open>broadcast\<close> and \<open>broadcastToRoom\<close> has an
  exception handler. A target that is not open is skipped and is no error. When no send
  to an open target raises, each primitive returns after sending to all its open targets
  (those passing the filter, those not excluded). When the transport's \<open>send\<close> raises on an
  open target, the exception leaves the primitive: the call raises, the targets before
  that one in the iteration order have been sent to and the targets after it have not.
\<close>

theorem send_primitives_outcome:
  "sendToClient st c m =
     (if readyState (socks st c) = OPEN
      then (if raises st c then (Threw, st) else (Returned, post st [c] m))
      else (Returned, st)) \<and>
   broadcast st m None =
     (if list_ex (raises st) (receivers st (wssClients st) None) then Threw else Returned,
      post st (until_raise st (receivers st (wssClients st) None)) m) \<and>
   broadcast st m (Some (tracks p)) =
     (if list_ex (raises st) (filter (tracks p st) (receivers st (wssClients st) None))
      then Threw else Returned,
      post st (until_raise st (filter (tracks p st) (receivers st (wssClients st) None))) m) \<and>
   broadcastToRoom st r m ex =
     (case rooms st r of
        None \<Rightarrow> (Returned, st)
      | Some ms \<Rightarrow>
          (if list_ex (raises st) (receivers st ms ex) then Threw else Returned,
           post st (until_raise st (receivers st ms ex)) m))"
proof (intro conjI)
  show "sendToClient st c m =
     (if readyState (socks st c) = OPEN
      then (if raises st c then (Threw, st) else (Returned, post st [c] m))
      else (Returned, st))"
    by (rule sendToClient_deliver)
  show "broadcast st m None =
     (if list_ex (raises st) (receivers st (wssClients st) None) then Threw else Returned,
      post st (until_raise st (receivers st (wssClients st) None)) m)"
    using broadcast_deliver [of None st m] by (simp add: receivers_def)
  have "filter (\<lambda>c. readyState (socks st c) = OPEN \<and> tracks p st c) (wssClients st) =
        filter (tracks p st) (receivers st (wssClients st) None)"
    by (simp add: receivers_def conj_commute)
  then show "broadcast st m (Some (tracks p)) =
     (if list_ex (raises st) (filter (tracks p st) (receivers st (wssClients st) None))
      then Threw else Returned,
      post st (until_raise st (filter (tracks p st) (receivers st (wssClients st) None))) m)"
    using broadcast_deliver [of "Some (tracks p)" st m] by (simp add: tracks_stable)
  show "broadcastToRoom st r m ex =
     (case rooms st r of
        None \<Rightarrow> (Returned, st)
      | Some ms \<Rightarrow>
          (if list_ex (raises st) (receivers st ms ex) then Threw else Returned,
           post st (until_raise st (receivers st ms ex)) m))"
    by (rule broadcastToRoom_deliver)
qed

text \<open>
  The claim as stated fails: in the state \<open>faulty\<close> the sockets 11, 12 and 13 are open and
  only the \<open>send\<close> of socket 11 raises; \<open>broadcastPriceUpdate\<close> raises to its caller and
  the sockets 12 and 13 are sent nothing.
\<close>

theorem broadcast_aborts_counterexample:
  "reachable faulty \<and> wssClients faulty = [11, 12, 13] \<and>
   readyState (socks faulty 12) = OPEN \<and> sendRaises (socks faulty 12) = False \<and>
   readyState (socks faulty 13) = OPEN \<and> sendRaises (socks faulty 13) = False \<and>
   broadcastPriceUpdate faulty 5 75 100 70 = (Threw, faulty)"
  by (simp add: reachable_faulty faulty_wssClients faulty_socks broadcastPriceUpdate_def
      broadcast_def ws_send_def)

subsection \<open>C7: an inbound LEAVE_ROOM frame\<close>

text \<open>
  C7, as the code has it. For a registered connection \<open>c\<close> and a room \<open>r\<close> that is in the
  room index, handling \<open>LEAVE_ROOM(r)\<close> removes \<open>c\<close> from the member set of \<open>r\<close> and \<open>r\<close> from
  the room set of \<open>c\<close>, deletes \<open>r\<close> from the room index when no member is left, and sends
  one \<open>ROOM_LEFT\<close> message to \<open>c\<close> when \<open>c\<close> is open, and nothing to anyone else: no
  \<open>USER_LEFT\<close> goes to the remaining members. (If the send to \<open>c\<close> raises, the handler
  catches and logs the error.) For a room name that is not in the room index the frame
  only refreshes the last-activity time of \<open>c\<close>: nothing is removed and no \<open>ROOM_LEFT\<close> is
  sent.
\<close>

theorem leave_room_frame:
  assumes "clients st c = Some info"
  shows "(rooms st r = None \<longrightarrow>
            handleMessage st c (F_LEAVE_ROOM r) now =
              (Returned, st\<lparr>clients := (clients st)(c \<mapsto> info\<lparr>lastActivity := now\<rparr>)\<rparr>)) \<and>
         (\<forall>ms. rooms st r = Some ms \<longrightarrow>
            handleMessage st c (F_LEAVE_ROOM r) now =
              (let st1 = st\<lparr>rooms := (if set_delete c ms = [] then (rooms st)(r := None)
                                       else (rooms st)(r \<mapsto> set_delete c ms)),
                              clients := (clients st)
                                (c \<mapsto> info\<lparr>lastActivity := now,
                                           clientRooms := set_delete r (clientRooms info)\<rparr>)\<rparr>
               in if readyState (socks st c) = OPEN
                  then (if raises st c
                        then (Returned, st1\<lparr>logged := logged st @ [LogError]\<rparr>)
                        else (Returned, post st1 [c] (ROOM_LEFT r now)))
                  else (Returned, st1)))"
  using assms
  by (auto simp: handleMessage_def leaveRoom_def tryCatch_def sendToClient_def ws_send_def
      raises_def post_def Let_def)

theorem leave_room_frame_witness:
  "clients demo5 11 =
     Some \<lparr>clientId = ''client_11'', userId = Some 7, connectedAt = 10, lastActivity = 10,
           clientRooms = [''jazz''], trackedProducts = []\<rparr> \<and>
   rooms demo5 ''jazz'' = Some [11, 12] \<and>
   handleMessage demo5 11 (F_LEAVE_ROOM ''jazz'') 60 =
     (Returned,
      post (demo5\<lparr>rooms := (rooms demo5)(''jazz'' \<mapsto> [12]),
                   clients := (clients demo5)
                     (11 \<mapsto> \<lparr>clientId = ''client_11'', userId = Some 7, connectedAt = 10,
                              lastActivity = 60, clientRooms = [], trackedProducts = []\<rparr>)\<rparr>)
        [11] (ROOM_LEFT ''jazz'' 60)) \<and>
   rooms demo5 ''blues'' = None \<and>
   sent (snd (handleMessage demo5 11 (F_LEAVE_ROOM ''blues'') 60)) = sent demo5"
proof -
  have r: "rooms demo5 ''jazz'' = Some [11, 12]" "rooms demo5 ''blues'' = None"
    by (simp_all add: demo5_rooms)
  show ?thesis
    using leave_room_frame [OF demo5_client11, of "''jazz''" 60]
      leave_room_frame [OF demo5_client11, of "''blues''" 60] r demo5_client11
    by (simp add: demo5_socks raises_def set_delete_def Let_def)
qed

text \<open>
  The claim as stated fails: connection 11 of \<open>demo3\<close> is registered and open, no room
  exists, and handling \<open>LEAVE_ROOM(jazz)\<close> from it sends nothing.
\<close>

theorem leave_absent_room_counterexample:
  "clients demo3 11 =
     Some \<lparr>clientId = ''client_11'', userId = Some 7, connectedAt = 10, lastActivity = 10,
           clientRooms = [], trackedProducts = []\<rparr> \<and>
   readyState (socks demo3 11) = OPEN \<and> sendRaises (socks demo3 11) = False \<and>
   sent (snd (handleMessage demo3 11 (F_LEAVE_ROOM ''jazz'') 60)) = sent demo3"
  by (simp add: demo3_client11 demo3_socks demo3_rooms handleMessage_def leaveRoom_def
      tryCatch_def)

subsection \<open>C8: joining a room twice\<close>

text \<open>
  C8. When connection \<open>c\<close> is already a member of room \<open>r\<close>, with member set \<open>ms\<close>, in a
  reachable state, handling a further \<open>JOIN_ROOM(r)\<close> frame from \<open>c\<close> returns and leaves the
  room index and the room set of \<open>c\<close> as they are (only the last-activity time of \<open>c\<close> is
  refreshed). The handler then sends a \<open>ROOM_JOINED\<close> confirmation with the unchanged
  member count to \<open>c\<close> when \<open>c\<close> is open, and after it a \<open>USER_JOINED\<close> notice with the same
  count to the other members of \<open>r\<close> that are open, in the order of the set. A \<open>send\<close> that
  raises ends the handler, which logs the error: when it is the \<open>send\<close> to \<open>c\<close> nothing is
  sent at all, and when it is the \<open>send\<close> to another member the members after it receive
  no notice. When \<open>send\<close> raises on no open member of \<open>r\<close>, the confirmation reaches \<open>c\<close> (if
  open) and the notice reaches every other open member, each once.
\<close>

theorem rejoin_room_frame:
  assumes "reachable st" and "rooms st r = Some ms" and "c \<in> set ms"
  shows "\<exists>info. clients st c = Some info \<and> r \<in> set (clientRooms info) \<and>
           handleMessage st c (F_JOIN_ROOM r) now =
             (Returned,
              (let st0 = st\<lparr>clients := (clients st)(c \<mapsto> info\<lparr>lastActivity := now\<rparr>)\<rparr>;
                   s1 = post st0 (receivers st [c] None) (ROOM_JOINED r (length ms) now);
                   s2 = post s1 (until_raise st (receivers st ms (Some c)))
                          (USER_JOINED (userId info) (length ms) now)
               in if list_ex (raises st) (receivers st [c] None)
                  then st0\<lparr>logged := logged st @ [LogError]\<rparr>
                  else if list_ex (raises st) (receivers st ms (Some c))
                  then s2\<lparr>logged := logged st @ [LogError]\<rparr>
                  else s2)) \<and>
           (\<not> list_ex (raises st) (receivers st ms None) \<longrightarrow>
              handleMessage st c (F_JOIN_ROOM r) now =
                (Returned,
                 post (post (st\<lparr>clients := (clients st)(c \<mapsto> info\<lparr>lastActivity := now\<rparr>)\<rparr>)
                         (receivers st [c] None) (ROOM_JOINED r (length ms) now))
                   (receivers st ms (Some c)) (USER_JOINED (userId info) (length ms) now))) \<and>
           receivers st [c] None = (if readyState (socks st c) = OPEN then [c] else []) \<and>
           (\<forall>d. count_list (receivers st ms (Some c)) d =
              (if d \<in> set ms \<and> readyState (socks st d) = OPEN \<and> d \<noteq> c then 1 else 0)) \<and>
           rooms (snd (handleMessage st c (F_JOIN_ROOM r) now)) = rooms st \<and>
           clients (snd (handleMessage st c (F_JOIN_ROOM r) now)) c =
             Some (info\<lparr>lastActivity := now\<rparr>)"
proof -
  have room: "ms \<noteq> [] \<and> distinct ms \<and> (\<forall>c \<in> set ms. lists_room st c r)"
    using index_ok_roomD [OF reachable_ok [OF assms(1)] assms(2)] .
  then have "lists_room st c r" using assms(3) by blast
  then obtain info where info: "clients st c = Some info" "r \<in> set (clientRooms info)"
    by (auto simp: lists_room_def split: option.splits)
  let ?st0 = "st\<lparr>clients := (clients st)(c \<mapsto> info\<lparr>lastActivity := now\<rparr>)\<rparr>"
  let ?R1 = "receivers st [c] None"
  let ?R2 = "receivers st ms (Some c)"
  let ?m1 = "ROOM_JOINED r (length ms) now"
  let ?m2 = "USER_JOINED (userId info) (length ms) now"
  let ?s1 = "post ?st0 ?R1 ?m1"
  let ?s2 = "post ?s1 (until_raise st ?R2) ?m2"
  let ?res = "if list_ex (raises st) ?R1 then ?st0\<lparr>logged := logged st @ [LogError]\<rparr>
              else if list_ex (raises st) ?R2 then ?s2\<lparr>logged := logged st @ [LogError]\<rparr>
              else ?s2"
  have same: "?st0\<lparr>rooms := (rooms ?st0)(r \<mapsto> set_add c ms),
                 clients := (clients ?st0)(c \<mapsto> info\<lparr>lastActivity := now,
                    clientRooms := set_add r (clientRooms info)\<rparr>)\<rparr> = ?st0"
    using assms(2,3) info(2) by (simp add: set_add_def fun_upd_idem)
  have rs: "raises ?st0 = raises st" "receivers ?st0 = receivers st"
    "until_raise ?st0 = until_raise st"
    by (simp_all add: raises_def receivers_def until_raise_def fun_eq_iff)
  have rp: "receivers (post s cs m) = receivers s" for s cs m
    by (simp add: receivers_def fun_eq_iff)
  have j: "joinRoom ?st0 c r now =
      andThen (sendToClient ?st0 c ?m1) (\<lambda>s. broadcastToRoom s r ?m2 (Some c))"
    using assms(2,3) info(2) same
    by (simp add: joinRoom_def Let_def set_add_def)
  have s: "sendToClient ?st0 c ?m1 =
      (if list_ex (raises st) ?R1 then (Threw, ?st0) else (Returned, ?s1))"
    by (simp add: sendToClient_deliver rs receivers_def)
  have b: "broadcastToRoom ?s1 r ?m2 (Some c) =
      (if list_ex (raises st) ?R2 then Threw else Returned, ?s2)"
    using assms(2) by (simp add: broadcastToRoom_deliver rs rp)
  have "tryCatch (joinRoom ?st0 c r now) = (Returned, ?res)"
    unfolding j s by (simp add: andThen_def b tryCatch_def)
  then have main: "handleMessage st c (F_JOIN_ROOM r) now = (Returned, ?res)"
    using info(1) by (simp add: handleMessage_def)
  have quiet: "?res = post ?s1 ?R2 ?m2" if q: "\<not> list_ex (raises st) (receivers st ms None)"
  proof -
    have "\<not> list_ex (raises st) ?R1" "\<not> list_ex (raises st) ?R2"
      using q assms(3) by (auto simp: list_ex_iff receivers_def)
    then show ?thesis by (simp add: until_raise_all)
  qed
  have cnt: "count_list ?R2 d =
      (if d \<in> set ms \<and> readyState (socks st d) = OPEN \<and> d \<noteq> c then 1 else 0)" for d
    using room by (auto simp: count_list_distinct receivers_distinct receivers_set)
  have r1: "?R1 = (if readyState (socks st c) = OPEN then [c] else [])"
    by (simp add: receivers_def)
  have fr: "rooms ?res = rooms st" "clients ?res c = Some (info\<lparr>lastActivity := now\<rparr>)"
    by simp_all
  have q': "\<not> list_ex (raises st) (receivers st ms None) \<longrightarrow>
      handleMessage st c (F_JOIN_ROOM r) now = (Returned, post ?s1 ?R2 ?m2)"
    using main quiet by simp
  have fr': "rooms (snd (handleMessage st c (F_JOIN_ROOM r) now)) = rooms st"
    "clients (snd (handleMessage st c (F_JOIN_ROOM r) now)) c = Some (info\<lparr>lastActivity := now\<rparr>)"
    unfolding main snd_conv by (rule fr)+
  have main': "handleMessage st c (F_JOIN_ROOM r) now =
      (Returned,
       (let st0 = st\<lparr>clients := (clients st)(c \<mapsto> info\<lparr>lastActivity := now\<rparr>)\<rparr>;
            s1 = post st0 (receivers st [c] None) (ROOM_JOINED r (length ms) now);
            s2 = post s1 (until_raise st (receivers st ms (Some c)))
                   (USER_JOINED (userId info) (length ms) now)
        in if list_ex (raises st) (receivers st [c] None)
           then st0\<lparr>logged := logged st @ [LogError]\<rparr>
           else if list_ex (raises st) (receivers st ms (Some c))
           then s2\<lparr>logged := logged st @ [LogError]\<rparr>
           else s2))"
    unfolding main Let_def ..
  show ?thesis
    using info main' q' r1 cnt fr' by blast
qed

text \<open>
  In \<open>demo5\<close> all sockets are open and no \<open>send\<close> raises: connection 11 joins \<open>jazz\<close> again
  and gets \<open>ROOM_JOINED\<close> with the count 2, connection 12 gets \<open>USER_JOINED\<close>.
\<close>

theorem rejoin_room_frame_witness:
  "reachable demo5 \<and> rooms demo5 ''jazz'' = Some [11, 12] \<and>
   receivers demo5 [11] None = [11] \<and> receivers demo5 [11, 12] (Some 11) = [12] \<and>
   handleMessage demo5 11 (F_JOIN_ROOM ''jazz'') 60 =
     (Returned,
      post (post (demo5\<lparr>clients := (clients demo5)
                    (11 \<mapsto> \<lparr>clientId = ''client_11'', userId = Some 7, connectedAt = 10,
                             lastActivity = 60, clientRooms = [''jazz''],
                             trackedProducts = []\<rparr>)\<rparr>)
              [11] (ROOM_JOINED ''jazz'' 2 60))
        [12] (USER_JOINED (Some 7) 2 60)) \<and>
   rooms (snd (handleMessage demo5 11 (F_JOIN_ROOM ''jazz'') 60)) = rooms demo5"
proof -
  have r: "rooms demo5 ''jazz'' = Some [11, 12]" by (simp add: demo5_rooms)
  have m: "11 \<in> set [11, 12::nat]" by simp
  have v: "receivers demo5 [11] None = [11]" "receivers demo5 [11, 12] (Some 11) = [12]"
    "receivers demo5 [11, 12] None = [11, 12]"
    by (simp_all add: receivers_def demo5_socks)
  have q: "\<not> list_ex (raises demo5) [11, 12]" "\<not> list_ex (raises demo5) [11]"
    "\<not> list_ex (raises demo5) [12]" "until_raise demo5 [12] = [12]"
    by (simp_all add: until_raise_def demo5_quiet)
  show ?thesis
    using rejoin_room_frame [OF reachable_demo5 r m, of 60] r v q reachable_demo5 demo5_client11
    by (auto simp: numeral_2_eq_2)
qed

text \<open>
  The sentence of C8 does not hold for every member. In the reachable state \<open>faulty5\<close> the
  connections 11 and 12 are the members of \<open>jazz\<close>, both open, and \<open>send\<close> raises on
  connection 11: when 11 joins \<open>jazz\<close> again the handler catches the exception of the
  confirmation and logs it, and nothing is sent, neither \<open>ROOM_JOINED\<close> to 11 nor
  \<open>USER_JOINED\<close> to 12. In the reachable state \<open>closing5\<close> socket 11 is closing: when 12
  joins \<open>jazz\<close> again, only the confirmation to 12 is sent, and the member 11 receives no
  \<open>USER_JOINED\<close>.
\<close>

theorem rejoin_room_counterexample:
  "reachable faulty5 \<and> rooms faulty5 ''jazz'' = Some [11, 12] \<and>
   readyState (socks faulty5 11) = OPEN \<and> readyState (socks faulty5 12) = OPEN \<and>
   handleMessage faulty5 11 (F_JOIN_ROOM ''jazz'') 60 =
     (Returned,
      faulty5\<lparr>clients := (clients faulty5)
                 (11 \<mapsto> \<lparr>clientId = ''client_11'', userId = Some 7, connectedAt = 10,
                          lastActivity = 60, clientRooms = [''jazz''],
                          trackedProducts = []\<rparr>),
               logged := logged faulty5 @ [LogError]\<rparr>) \<and>
   sent (snd (handleMessage faulty5 11 (F_JOIN_ROOM ''jazz'') 60)) = sent faulty5 \<and>
   reachable closing5 \<and> rooms closing5 ''jazz'' = Some [11, 12] \<and>
   readyState (socks closing5 11) = CLOSING \<and>
   sent (snd (handleMessage closing5 12 (F_JOIN_ROOM ''jazz'') 60)) =
     sent closing5 @ [(12, ROOM_JOINED ''jazz'' 2 60)]"
proof -
  have a: "handleMessage faulty5 11 (F_JOIN_ROOM ''jazz'') 60 =
     (Returned,
      faulty5\<lparr>clients := (clients faulty5)
                 (11 \<mapsto> \<lparr>clientId = ''client_11'', userId = Some 7, connectedAt = 10,
                          lastActivity = 60, clientRooms = [''jazz''],
                          trackedProducts = []\<rparr>),
               logged := logged faulty5 @ [LogError]\<rparr>)"
    by (simp add: handleMessage_def faulty5_client11 joinRoom_def faulty5_rooms set_add_def
        sendToClient_def ws_send_def faulty5_socks andThen_def tryCatch_def fun_upd_idem)
  have b: "sent (snd (handleMessage closing5 12 (F_JOIN_ROOM ''jazz'') 60)) =
     sent closing5 @ [(12, ROOM_JOINED ''jazz'' 2 60)]"
    by (simp add: handleMessage_def closing5_client12 joinRoom_def closing5_rooms set_add_def
        sendToClient_def ws_send_def closing5_socks andThen_def tryCatch_def
        broadcastToRoom_def numeral_2_eq_2)
  show ?thesis
    unfolding a b
    by (simp add: reachable_faulty5 reachable_closing5 faulty5_rooms closing5_rooms
        faulty5_socks closing5_socks)
qed

subsection \<open>C9: the discount of a price update\<close>

text \<open>
  C9. \<open>broadcastPriceUpdate(productId, newPrice, oldPrice)\<close> sends a \<open>PRICE_UPDATE\<close> message
  with the two prices and the \<open>discount\<close> field to the open connections of \<open>wss.clients\<close>,
  in the order of the set, up to the first one on which the transport's \<open>send\<close> raises
  (to all of them when it raises on none). The \<open>discount\<close> field is 0 unless
  \<open>oldPrice > newPrice\<close>, and then it is \<open>Math.round\<close> of the double-precision value of
  \<open>((oldPrice - newPrice) / oldPrice) * 100\<close>, each of the three operations rounded to the
  nearest double. For \<open>0 \<le> newPrice < oldPrice\<close> (the difference not below the smallest
  normal double, \<open>oldPrice\<close> below \<open>2 ^ 1023\<close>) the field is an integer within
  \<open>1 / 2 + 1 / 10 ^ 13\<close> of the exact percentage. The field is not negative when
  \<open>oldPrice\<close> is positive. For \<open>oldPrice = 100\<close>, \<open>newPrice = 75\<close> it is 25, for
  \<open>oldPrice = 50\<close>, \<open>newPrice = 60\<close> it is 0, and for \<open>oldPrice = 200\<close>, \<open>newPrice = 171\<close> it is
  14.
\<close>

theorem price_update_discount:
  "broadcastPriceUpdate st productId newPrice oldPrice now =
     (if list_ex (raises st) (receivers st (wssClients st) None) then Threw else Returned,
      post st (until_raise st (receivers st (wssClients st) None))
        (PRICE_UPDATE productId newPrice oldPrice (discount newPrice oldPrice) now)) \<and>
   (\<not> list_ex (raises st) (receivers st (wssClients st) None) \<longrightarrow>
      until_raise st (receivers st (wssClients st) None) = receivers st (wssClients st) None) \<and>
   (\<not> oldPrice > newPrice \<longrightarrow> discount newPrice oldPrice = Num 0) \<and>
   (oldPrice > newPrice \<longrightarrow>
      discount newPrice oldPrice =
        Math_round (js_mul (js_div (fl (oldPrice - newPrice)) oldPrice) 100)) \<and>
   (0 \<le> newPrice \<and> newPrice < oldPrice \<and> 1 / 2 ^ 1022 \<le> oldPrice - newPrice \<and>
    oldPrice < 2 ^ 1023 \<longrightarrow>
      (\<exists>n. discount newPrice oldPrice = Num (of_int n) \<and>
           \<bar>of_int n - (oldPrice - newPrice) / oldPrice * 100\<bar> \<le> 1 / 2 + 1 / 10 ^ 13)) \<and>
   (0 < oldPrice \<longrightarrow> nonneg (discount newPrice oldPrice)) \<and>
   discount 75 100 = Num 25 \<and> discount 60 50 = Num 0 \<and> discount 171 200 = Num 14"
proof (intro conjI impI)
  show "broadcastPriceUpdate st productId newPrice oldPrice now =
     (if list_ex (raises st) (receivers st (wssClients st) None) then Threw else Returned,
      post st (until_raise st (receivers st (wssClients st) None))
        (PRICE_UPDATE productId newPrice oldPrice (discount newPrice oldPrice) now))"
    using broadcast_deliver
      [of None st "PRICE_UPDATE productId newPrice oldPrice (discount newPrice oldPrice) now"]
    by (simp add: broadcastPriceUpdate_def priceUpdateMessage_def receivers_def)
  show "until_raise st (receivers st (wssClients st) None) = receivers st (wssClients st) None"
    if "\<not> list_ex (raises st) (receivers st (wssClients st) None)"
    using that by (rule until_raise_all)
  show "discount newPrice oldPrice = Num 0" if "\<not> oldPrice > newPrice"
    using that by (simp add: discount_def)
  show "discount newPrice oldPrice =
      Math_round (js_mul (js_div (fl (oldPrice - newPrice)) oldPrice) 100)"
    if "oldPrice > newPrice"
    using that by (simp add: discount_def)
  show "\<exists>n. discount newPrice oldPrice = Num (of_int n) \<and>
           \<bar>of_int n - (oldPrice - newPrice) / oldPrice * 100\<bar> \<le> 1 / 2 + 1 / 10 ^ 13"
    if "0 \<le> newPrice \<and> newPrice < oldPrice \<and> 1 / 2 ^ 1022 \<le> oldPrice - newPrice \<and>
        oldPrice < 2 ^ 1023"
    using that discount_close [of newPrice oldPrice] by blast
  show "nonneg (discount newPrice oldPrice)" if "0 < oldPrice"
    using that by (rule discount_nonneg)
  show "discount 75 100 = Num 25" by (rule discount_75_100)
  show "discount 60 50 = Num 0" by (rule discount_60_50)
  show "discount 171 200 = Num 14" by (rule discount_171_200)
qed

text \<open>
  In \<open>demo5\<close> the three connections are open and no \<open>send\<close> raises: the update of product 5
  from 100 to 75 reaches all three with the discount 25, the update from 50 to 60 with
  the discount 0.
\<close>

theorem price_update_discount_witness:
  "receivers demo5 (wssClients demo5) None = [11, 12, 13] \<and>
   broadcastPriceUpdate demo5 5 75 100 60 =
     (Returned, post demo5 [11, 12, 13] (PRICE_UPDATE 5 75 100 (Num 25) 60)) \<and>
   broadcastPriceUpdate demo5 5 60 50 60 =
     (Returned, post demo5 [11, 12, 13] (PRICE_UPDATE 5 60 50 (Num 0) 60)) \<and>
   (\<exists>n. discount 75 100 = Num (of_int n) \<and> \<bar>of_int n - (100 - 75) / 100 * (100::real)\<bar> \<le> 1 / 2 + 1 / 10 ^ 13) \<and>
   nonneg (discount 75 100) \<and> nonneg (discount 60 50)"
proof -
  have v: "receivers demo5 (wssClients demo5) None = [11, 12, 13]"
    by (simp add: receivers_def demo5_socks demo5_wssClients)
  have q: "\<not> list_ex (raises demo5) [11, 12, 13]" "until_raise demo5 [11, 12, 13] = [11, 12, 13]"
    by (simp_all add: until_raise_def demo5_quiet)
  have n: "(0::real) \<le> 75" "(75::real) < 100" "(1::real) / 2 ^ 1022 \<le> 100 - 75"
    "(100::real) < 2 ^ 1023" "(0::real) < 100" "(0::real) < 50" "\<not> (50::real) > 60"
    by simp_all
  note a = price_update_discount [of demo5 5 75 100 60]
  note b = price_update_discount [of demo5 5 60 50 60]
  have d: "discount 75 100 = Num 25" "discount 60 50 = Num 0" using a by blast+
  have e1: "broadcastPriceUpdate demo5 5 75 100 60 =
      (Returned, post demo5 [11, 12, 13] (PRICE_UPDATE 5 75 100 (Num 25) 60))"
    using a v q d by simp
  have e2: "broadcastPriceUpdate demo5 5 60 50 60 =
      (Returned, post demo5 [11, 12, 13] (PRICE_UPDATE 5 60 50 (Num 0) 60))"
    using b v q d by simp
  have e3: "\<exists>n. discount 75 100 = Num (of_int n) \<and>
      \<bar>of_int n - (100 - 75) / 100 * (100::real)\<bar> \<le> 1 / 2 + 1 / 10 ^ 13"
    using a n by blast
  have e4: "nonneg (discount 75 100)" "nonneg (discount 60 50)"
    using a b n by blast+
  show ?thesis using v e1 e2 e3 e4 by blast
qed

text \<open>
  The sentence of C9 does not hold for all prices. The method is called with any two
  numbers, and for the negative prices \<open>oldPrice = -50\<close>, \<open>newPrice = -60\<close> the test
  \<open>oldPrice > newPrice\<close> holds and the field is \<open>-20\<close>: a negative discount reaches the
  three connections of \<open>demo5\<close>. For \<open>oldPrice = 0\<close>, \<open>newPrice = -5\<close> the field is not a
  finite number. The field is the rounding of the double-precision value, not of the exact
  one: for \<open>oldPrice = 200\<close>, \<open>newPrice = 171\<close> the exact percentage \<open>14.5\<close> rounds to 15 and
  the field is 14.
\<close>

theorem price_update_counterexample:
  "discount (- 60) (- 50) = Num (- 20) \<and> \<not> nonneg (discount (- 60) (- 50)) \<and>
   broadcastPriceUpdate demo5 5 (- 60) (- 50) 60 =
     (Returned, post demo5 [11, 12, 13] (PRICE_UPDATE 5 (- 60) (- 50) (Num (- 20)) 60)) \<and>
   discount (- 5) 0 = Infinity \<and>
   discount 171 200 = Num 14 \<and> round (((200 - 171) / 200) * 100 :: real) = 15"
proof -
  have v: "filter (\<lambda>c. readyState (socks demo5 c) = OPEN) (wssClients demo5) = [11, 12, 13]"
    by (simp add: demo5_socks demo5_wssClients)
  have q: "\<not> list_ex (raises demo5) [11, 12, 13]" "until_raise demo5 [11, 12, 13] = [11, 12, 13]"
    by (simp_all add: until_raise_def demo5_quiet)
  have b: "broadcastPriceUpdate demo5 5 (- 60) (- 50) 60 =
     (Returned, post demo5 [11, 12, 13] (PRICE_UPDATE 5 (- 60) (- 50) (Num (- 20)) 60))"
    using broadcast_deliver [of None demo5 "PRICE_UPDATE 5 (- 60) (- 50) (Num (- 20)) 60"] v q
    by (simp add: broadcastPriceUpdate_def priceUpdateMessage_def discount_neg)
  show ?thesis
    using b discount_neg discount_zero_old discount_171_200 exact_171_200 by simp
qed

subsection \<open>C10: an inbound USER_TYPING frame\<close>

text \<open>
  C10. For a registered connection \<open>c\<close> and a room \<open>r\<close> that is in the room index with member
  set \<open>ms\<close>, handling a \<open>USER_TYPING\<close> frame naming \<open>r\<close> returns, and sends a \<open>USER_TYPING\<close>
  message with the user identifier of \<open>c\<close> and the timestamp to the open members of \<open>r\<close>
  other than \<open>c\<close>, in the order of the set, up to the first one on which the transport's
  \<open>send\<close> raises; the handler catches that exception and logs it. When \<open>send\<close> raises on
  none of them, every open member of \<open>r\<close> other than \<open>c\<close> is sent the message. Nothing else
  changes but the last-activity time of \<open>c\<close>, and nothing requires \<open>c\<close> to be a member of
  \<open>r\<close>.
\<close>

theorem user_typing_frame:
  assumes "clients st c = Some info" and "rooms st r = Some ms"
  shows "handleMessage st c (F_USER_TYPING r) now =
           (Returned,
            (let s = post (st\<lparr>clients := (clients st)(c \<mapsto> info\<lparr>lastActivity := now\<rparr>)\<rparr>)
                       (until_raise st (receivers st ms (Some c)))
                       (USER_TYPING (userId info) now)
             in if list_ex (raises st) (receivers st ms (Some c))
                then s\<lparr>logged := logged st @ [LogError]\<rparr> else s)) \<and>
         (\<not> list_ex (raises st) (receivers st ms (Some c)) \<longrightarrow>
            handleMessage st c (F_USER_TYPING r) now =
              (Returned,
               post (st\<lparr>clients := (clients st)(c \<mapsto> info\<lparr>lastActivity := now\<rparr>)\<rparr>)
                 (receivers st ms (Some c)) (USER_TYPING (userId info) now))) \<and>
         (\<forall>d. d \<in> set (receivers st ms (Some c)) \<longleftrightarrow>
              d \<in> set ms \<and> readyState (socks st d) = OPEN \<and> d \<noteq> c)"
proof -
  let ?st0 = "st\<lparr>clients := (clients st)(c \<mapsto> info\<lparr>lastActivity := now\<rparr>)\<rparr>"
  have rs: "raises ?st0 = raises st" "receivers ?st0 = receivers st"
    "until_raise ?st0 = until_raise st"
    by (simp_all add: raises_def receivers_def until_raise_def fun_eq_iff)
  have main: "handleMessage st c (F_USER_TYPING r) now =
           (Returned,
            (let s = post ?st0 (until_raise st (receivers st ms (Some c)))
                       (USER_TYPING (userId info) now)
             in if list_ex (raises st) (receivers st ms (Some c))
                then s\<lparr>logged := logged st @ [LogError]\<rparr> else s))"
    using assms
    by (simp add: handleMessage_def tryCatch_def broadcastToRoom_deliver rs Let_def)
  have quiet: "handleMessage st c (F_USER_TYPING r) now =
      (Returned, post ?st0 (receivers st ms (Some c)) (USER_TYPING (userId info) now))"
    if "\<not> list_ex (raises st) (receivers st ms (Some c))"
    using that by (simp add: main until_raise_all)
  have mem: "d \<in> set (receivers st ms (Some c)) \<longleftrightarrow>
      d \<in> set ms \<and> readyState (socks st d) = OPEN \<and> d \<noteq> c" for d
    by (auto simp: receivers_set)
  show ?thesis using main quiet mem by blast
qed

text \<open>
  In \<open>demo5\<close> connection 13 is not a member of \<open>jazz\<close> and no \<open>send\<close> raises: its
  \<open>USER_TYPING\<close> frame for \<open>jazz\<close> reaches the members 11 and 12.
\<close>

theorem user_typing_frame_witness:
  "clients demo5 13 =
     Some \<lparr>clientId = ''client_13'', userId = None, connectedAt = 30, lastActivity = 30,
           clientRooms = [], trackedProducts = []\<rparr> \<and>
   rooms demo5 ''jazz'' = Some [11, 12] \<and> receivers demo5 [11, 12] (Some 13) = [11, 12] \<and>
   handleMessage demo5 13 (F_USER_TYPING ''jazz'') 60 =
     (Returned,
      post (demo5\<lparr>clients := (clients demo5)
              (13 \<mapsto> \<lparr>clientId = ''client_13'', userId = None, connectedAt = 30,
                       lastActivity = 60, clientRooms = [], trackedProducts = []\<rparr>)\<rparr>)
        [11, 12] (USER_TYPING None 60))"
proof -
  have r: "rooms demo5 ''jazz'' = Some [11, 12]" by (simp add: demo5_rooms)
  have v: "receivers demo5 [11, 12] (Some 13) = [11, 12]"
    by (simp add: receivers_def demo5_socks)
  have q: "\<not> list_ex (raises demo5) [11, 12]" "until_raise demo5 [11, 12] = [11, 12]"
    by (simp_all add: until_raise_def demo5_quiet)
  show ?thesis
    using user_typing_frame [OF demo5_client13 r, of 60] r v q demo5_client13
    by simp
qed

text \<open>
  The sentence of C10 without the condition on \<open>send\<close> does not hold. In the reachable
  state \<open>faulty5\<close> the room \<open>jazz\<close> has the open members 11 and 12, and \<open>send\<close> raises on
  connection 11, the first of the set. A \<open>USER_TYPING\<close> frame for \<open>jazz\<close> from connection 13
  sends nothing: the handler logs the exception, and the open member 12 does not receive
  the message.
\<close>

theorem user_typing_raise_counterexample:
  "reachable faulty5 \<and> rooms faulty5 ''jazz'' = Some [11, 12] \<and>
   readyState (socks faulty5 11) = OPEN \<and> readyState (socks faulty5 12) = OPEN \<and>
   handleMessage faulty5 13 (F_USER_TYPING ''jazz'') 60 =
     (Returned,
      faulty5\<lparr>clients := (clients faulty5)
                 (13 \<mapsto> \<lparr>clientId = ''client_13'', userId = None, connectedAt = 30,
                          lastActivity = 60, clientRooms = [], trackedProducts = []\<rparr>),
               logged := logged faulty5 @ [LogError]\<rparr>) \<and>
   sent (snd (handleMessage faulty5 13 (F_USER_TYPING ''jazz'') 60)) = sent faulty5"
proof -
  have a: "handleMessage faulty5 13 (F_USER_TYPING ''jazz'') 60 =
     (Returned,
      faulty5\<lparr>clients := (clients faulty5)
                 (13 \<mapsto> \<lparr>clientId = ''client_13'', userId = None, connectedAt = 30,
                          lastActivity = 60, clientRooms = [], trackedProducts = []\<rparr>),
               logged := logged faulty5 @ [LogError]\<rparr>)"
    by (simp add: handleMessage_def faulty5_client13 broadcastToRoom_def faulty5_rooms
        ws_send_def faulty5_socks tryCatch_def)
  show ?thesis
    unfolding a
    by (simp add: reachable_faulty5 faulty5_rooms faulty5_socks)
qed

end
